theory Spec2Isabelle
  imports Main "HOL-Library.AList"
begin

section \<open>Text helpers: what the Python string operations compute\<close>

text \<open>
  Strings are byte lists. The source applies \<^verbatim>\<open>\d\<close>, \<^verbatim>\<open>\w\<close>, \<^verbatim>\<open>str()\<close> and
  \<^verbatim>\<open>in\<close> to Python text; the definitions below give their meaning on ASCII text
  (Python's \<^verbatim>\<open>\d\<close> and \<^verbatim>\<open>\w\<close> also accept non-ASCII digits and letters, which a
  byte string cannot tell apart and which are outside this model).
\<close>

definition is_digit :: "char \<Rightarrow> bool" where
  "is_digit c = (c \<in> set ''0123456789'')"

definition is_word :: "char \<Rightarrow> bool" where
  "is_word c =
     (c \<in> set ''abcdefghijklmnopqrstuvwxyzABCDEFGHIJKLMNOPQRSTUVWXYZ0123456789_'')"

definition digit_val :: "char \<Rightarrow> int" where
  "digit_val c = int (of_char c) - 48"

text \<open>
  \<^verbatim>\<open>int(s)\<close> on a run of decimal digits. (CPython from 3.11 on refuses a run of more
  than 4300 digits; the model has no such limit.)
\<close>

definition int_of_digits :: "string \<Rightarrow> int" where
  "int_of_digits ds = fold (\<lambda>c n. 10 * n + digit_val c) ds 0"

definition digit_char :: "nat \<Rightarrow> char" where
  "digit_char d = char_of (48 + d)"

text \<open>\<^verbatim>\<open>str(n)\<close> for an integer: decimal digits, a minus sign when negative.\<close>

fun str_nat :: "nat \<Rightarrow> string" where
  "str_nat n = (if n < 10 then [digit_char n] else str_nat (n div 10) @ [digit_char (n mod 10)])"

declare str_nat.simps [simp del]

definition str_int :: "int \<Rightarrow> string" where
  "str_int i = (if i < 0 then CHR ''-'' # str_nat (nat (- i)) else str_nat (nat i))"

text \<open>The separator \<^verbatim>\<open>", "\<close> joined between the items, as \<^verbatim>\<open>repr\<close> of a list does.\<close>

fun join_comma :: "string list \<Rightarrow> string" where
  "join_comma [] = []"
| "join_comma [s] = s"
| "join_comma (s # t # ss) = s @ '', '' @ join_comma (t # ss)"

text \<open>The text an f-string gives for a list of integers: \<^verbatim>\<open>[0, 1, 2]\<close>.\<close>

definition str_int_list :: "int list \<Rightarrow> string" where
  "str_int_list xs = ''['' @ join_comma (map str_int xs) @ '']''"

text \<open>\<^verbatim>\<open>sub in s\<close> on strings.\<close>

fun str_contains :: "string \<Rightarrow> string \<Rightarrow> bool" where
  "str_contains sub [] = (sub = [])"
| "str_contains sub (c # cs) = (take (length sub) (c # cs) = sub \<or> str_contains sub cs)"

text \<open>
  \<^verbatim>\<open>re.search(r'\d+', s)\<close>: the leftmost, longest run of digits, or no match.
\<close>

definition search_digits :: "string \<Rightarrow> string option" where
  "search_digits s =
     (let r = takeWhile is_digit (dropWhile (\<lambda>c. \<not> is_digit c) s)
      in if r = [] then None else Some r)"

text \<open>
  \<^verbatim>\<open>re.search(r'for (\w+)', s)\<close>, group 1: at the leftmost position where the text
  \<^verbatim>\<open>for \<close> is followed by a word character, the longest run of word characters.
\<close>

fun search_for_word :: "string \<Rightarrow> string option" where
  "search_for_word [] = None"
| "search_for_word (c # cs) =
     (if take 4 (c # cs) = ''for '' \<and> takeWhile is_word (drop 4 (c # cs)) \<noteq> []
      then Some (takeWhile is_word (drop 4 (c # cs)))
      else search_for_word cs)"

section \<open>hal\_adapter.py: the data\<close>

text \<open>One entry of \<^verbatim>\<open>BOARD_SPECS\<close>.\<close>

record board_spec =
  available_gpio :: "int list"
  pwm_capable :: "int list"
  adc_capable :: "int list"
  i2c :: "(string \<times> int) list"
  reserved :: "int list"
  default_led :: int

text \<open>The dataclass \<^verbatim>\<open>ValidationIssue\<close>.\<close>

record validation_issue =
  type :: string
  severity :: string
  message :: string
  suggested_fix :: "string option"

text \<open>
  The input \<^verbatim>\<open>pin_json["connections"]\<close>: a list of connection dicts, each with an
  optional \<^verbatim>\<open>"component"\<close> and a list \<^verbatim>\<open>"pins"\<close> of pin dicts with an optional
  \<^verbatim>\<open>"mcu_pin"\<close> (text or integer) and an optional \<^verbatim>\<open>"type"\<close>. An absent key is
  \<open>None\<close>; the code's \<^verbatim>\<open>.get\<close> defaults are applied where it applies them.
\<close>

datatype raw_pin = PinStr string | PinInt int

record pin_entry =
  mcu_pin :: "raw_pin option"
  pin_type :: "string option"

record connection =
  component :: "string option"
  pins :: "pin_entry list"

text \<open>An \<^verbatim>\<open>IntelligentHAL\<close> instance: the two attributes \<^verbatim>\<open>__init__\<close> sets.\<close>

record hal =
  board_type :: string
  spec :: board_spec

definition esp32_spec :: board_spec where
  "esp32_spec = \<lparr>
     available_gpio = map int [0..<40],
     pwm_capable = [2, 4, 5, 12, 13, 14, 15, 16, 17, 18, 19, 21, 22, 23, 25, 26, 27, 32, 33],
     adc_capable = [32, 33, 34, 35, 36, 39],
     i2c = [(''SDA'', 21), (''SCL'', 22)],
     reserved = [0, 1, 6, 7, 8, 9, 10, 11],
     default_led = 2 \<rparr>"

definition arduino_nano_spec :: board_spec where
  "arduino_nano_spec = \<lparr>
     available_gpio = [2, 3, 4, 5, 6, 7, 8, 9, 10, 11, 12, 13],
     pwm_capable = [3, 5, 6, 9, 10, 11],
     adc_capable = [14, 15, 16, 17, 18, 19],
     i2c = [(''SDA'', 18), (''SCL'', 19)],
     reserved = [0, 1],
     default_led = 13 \<rparr>"

definition arduino_uno_spec :: board_spec where
  "arduino_uno_spec = \<lparr>
     available_gpio = [2, 3, 4, 5, 6, 7, 8, 9, 10, 11, 12, 13],
     pwm_capable = [3, 5, 6, 9, 10, 11],
     adc_capable = [14, 15, 16, 17, 18, 19],
     i2c = [(''SDA'', 18), (''SCL'', 19)],
     reserved = [0, 1],
     default_led = 13 \<rparr>"

definition BOARD_SPECS :: "(string \<times> board_spec) list" where
  "BOARD_SPECS =
     [(''esp32'', esp32_spec), (''arduino_nano'', arduino_nano_spec),
      (''arduino_uno'', arduino_uno_spec)]"

text \<open>
  \<^verbatim>\<open>IntelligentHAL.__init__\<close>:
  \<^verbatim>\<open>self.spec = self.BOARD_SPECS.get(board_type, self.BOARD_SPECS["esp32"])\<close>.
\<close>

definition IntelligentHAL :: "string \<Rightarrow> hal" where
  "IntelligentHAL b =
     \<lparr> board_type = b,
       spec = (case map_of BOARD_SPECS b of Some s \<Rightarrow> s | None \<Rightarrow> esp32_spec) \<rparr>"

section \<open>hal\_adapter.py: validation\<close>

text \<open>\<^verbatim>\<open>_parse_pin_number\<close>: the first run of digits as an integer, 0 when there is none.\<close>

definition parse_pin_number :: "string \<Rightarrow> int" where
  "parse_pin_number pin_str =
     (case search_digits pin_str of Some m \<Rightarrow> int_of_digits m | None \<Rightarrow> 0)"

text \<open>\<^verbatim>\<open>str(pin.get("mcu_pin", "0"))\<close>.\<close>

definition mcu_pin_str :: "pin_entry \<Rightarrow> string" where
  "mcu_pin_str p =
     (case mcu_pin p of None \<Rightarrow> ''0'' | Some (PinStr s) \<Rightarrow> s | Some (PinInt i) \<Rightarrow> str_int i)"

text \<open>\<^verbatim>\<open>_validate_pin\<close>, with its early return on a pin the board does not have.\<close>

definition validate_pin :: "hal \<Rightarrow> int \<Rightarrow> string \<Rightarrow> string \<Rightarrow> validation_issue list" where
  "validate_pin h pin ptype cname =
     (if pin \<notin> set (available_gpio (spec h)) then
        [\<lparr> type = ''invalid_pin'', severity = ''critical'',
           message = ''Pin '' @ str_int pin @ '' not available on '' @ board_type h,
           suggested_fix =
             Some (''Use pin from: '' @ str_int_list (take 5 (available_gpio (spec h)))) \<rparr>]
      else
        (if pin \<in> set (reserved (spec h)) then
           [\<lparr> type = ''reserved_pin'', severity = ''warning'',
              message = ''Pin '' @ str_int pin @ '' is reserved (boot/flash)'',
              suggested_fix = Some ''Use different pin if possible'' \<rparr>]
         else [])
        @ (if ptype = ''PWM'' \<and> pin \<notin> set (pwm_capable (spec h)) then
             [\<lparr> type = ''wrong_capability'', severity = ''critical'',
                message = ''Pin '' @ str_int pin @ '' not PWM-capable for '' @ cname,
                suggested_fix =
                  Some (''Use PWM pin: '' @ str_int_list (take 3 (pwm_capable (spec h)))) \<rparr>]
           else [])
        @ (if ptype = ''ADC'' \<and> pin \<notin> set (adc_capable (spec h)) then
             [\<lparr> type = ''wrong_capability'', severity = ''critical'',
                message = ''Pin '' @ str_int pin @ '' not ADC-capable for '' @ cname,
                suggested_fix =
                  Some (''Use ADC pin: '' @ str_int_list (take 3 (adc_capable (spec h)))) \<rparr>]
           else []))"

text \<open>The three locals of \<^verbatim>\<open>validate_and_resolve\<close> that its loops update.\<close>

record vstate =
  issues :: "validation_issue list"
  resolved :: "(string \<times> int) list"
  used_pins :: "int set"

definition conflict_issue :: "int \<Rightarrow> validation_issue" where
  "conflict_issue p =
     \<lparr> type = ''conflict'', severity = ''critical'',
       message = ''Pin '' @ str_int p @ '' used by multiple components'',
       suggested_fix = Some ''Reassign one component to different pin'' \<rparr>"

text \<open>
  The body of the inner loop \<^verbatim>\<open>for pin in pins\<close>. The dict \<^verbatim>\<open>resolved\<close> is an
  association list in insertion order; \<open>AList.update\<close> overwrites an existing key in
  place and appends a new one, as assignment to a Python dict does.
\<close>

definition validate_entry :: "hal \<Rightarrow> string \<Rightarrow> pin_entry \<Rightarrow> vstate \<Rightarrow> vstate" where
  "validate_entry h cname p s =
     (let ptype = (case pin_type p of None \<Rightarrow> ''GPIO'' | Some t \<Rightarrow> t);
          pin = parse_pin_number (mcu_pin_str p);
          pin_issues = validate_pin h pin ptype cname
      in \<lparr> issues = issues s @ pin_issues
                    @ (if pin \<in> used_pins s then [conflict_issue pin] else []),
           resolved = AList.update cname pin (resolved s),
           used_pins = insert pin (used_pins s) \<rparr>)"

text \<open>The body of the outer loop \<^verbatim>\<open>for conn in connections\<close>.\<close>

definition validate_conn :: "hal \<Rightarrow> connection \<Rightarrow> vstate \<Rightarrow> vstate" where
  "validate_conn h conn s =
     (let cname = (case component conn of None \<Rightarrow> ''Unknown'' | Some c \<Rightarrow> c)
      in fold (validate_entry h cname) (pins conn) s)"

definition validate_loop :: "hal \<Rightarrow> connection list \<Rightarrow> vstate" where
  "validate_loop h conns =
     fold (validate_conn h) conns \<lparr> issues = [], resolved = [], used_pins = {} \<rparr>"

section \<open>hal\_adapter.py: the repair pass\<close>

text \<open>The locals of \<^verbatim>\<open>_auto_fix\<close> that its loop updates.\<close>

record fstate =
  fixed_resolved :: "(string \<times> int) list"
  remaining_issues :: "validation_issue list"
  fix_used :: "int set"

text \<open>
  The inner \<^verbatim>\<open>for pwm_pin in ...: if pwm_pin not in used_pins: ...; break\<close>: the first
  pin of the capability list that is not used gets assigned; when every pin is used the
  loop ends without doing anything.
\<close>

definition assign_first_free :: "int list \<Rightarrow> string \<Rightarrow> fstate \<Rightarrow> fstate" where
  "assign_first_free cands cname s =
     (case find (\<lambda>p. p \<notin> fix_used s) cands of
        None \<Rightarrow> s
      | Some p \<Rightarrow> s\<lparr> fixed_resolved := AList.update cname p (fixed_resolved s),
                      fix_used := insert p (fix_used s) \<rparr>)"

text \<open>The body of \<^verbatim>\<open>for issue in issues\<close> in \<^verbatim>\<open>_auto_fix\<close>.\<close>

definition auto_fix_issue :: "hal \<Rightarrow> validation_issue \<Rightarrow> fstate \<Rightarrow> fstate" where
  "auto_fix_issue h issue s =
     (if severity issue \<noteq> ''critical'' then
        s\<lparr> remaining_issues := remaining_issues s @ [issue] \<rparr>
      else if type issue = ''wrong_capability'' then
        (case search_for_word (message issue) of
           None \<Rightarrow> s
         | Some cname \<Rightarrow>
             if str_contains ''PWM'' (message issue) then
               assign_first_free (pwm_capable (spec h)) cname s
             else if str_contains ''ADC'' (message issue) then
               assign_first_free (adc_capable (spec h)) cname s
             else s)
      else if type issue = ''invalid_pin'' then
        s\<lparr> remaining_issues := remaining_issues s @
             [\<lparr> type = ''auto_fixed'', severity = ''warning'',
                message = ''Auto-fixed: '' @ message issue,
                suggested_fix = None \<rparr>] \<rparr>
      else s)"

definition auto_fix ::
  "hal \<Rightarrow> (string \<times> int) list \<Rightarrow> validation_issue list
     \<Rightarrow> (string \<times> int) list \<times> validation_issue list" where
  "auto_fix h res iss =
     (let s = fold (auto_fix_issue h) iss
                \<lparr> fixed_resolved = res, remaining_issues = [],
                  fix_used = set (map snd res) \<rparr>
      in (fixed_resolved s, remaining_issues s))"

text \<open>
  \<^verbatim>\<open>validate_and_resolve\<close>: the validation loops, then the repair pass when any issue
  is critical. The \<^verbatim>\<open>print\<close> calls write to standard output and are not modelled.
\<close>

definition validate_and_resolve ::
  "hal \<Rightarrow> connection list \<Rightarrow> (string \<times> int) list \<times> validation_issue list" where
  "validate_and_resolve h conns =
     (let s = validate_loop h conns
      in if \<exists>i \<in> set (issues s). severity i = ''critical''
         then auto_fix h (resolved s) (issues s)
         else (resolved s, issues s))"

section \<open>pin\_mapper.py: the pin assigner and its usage table\<close>

text \<open>
  \<^verbatim>\<open>IntelligentPinMapper\<close> keeps the dict \<^verbatim>\<open>self.pin_usage\<close> (pin to peripheral type)
  from call to call; the model passes it in and returns it updated. The attribute
  \<^verbatim>\<open>board_capabilities\<close> is read into \<^verbatim>\<open>board_pins\<close>, which the \<^verbatim>\<open>_find_*\<close>
  methods receive and never read, and \<^verbatim>\<open>requirements\<close> is never read either, so
  neither is a parameter here.
\<close>

type_synonym pin_usage = "(int \<times> string) list"

definition gpio_defaults :: "(string \<times> int list) list" where
  "gpio_defaults =
     [(''esp32'', [2, 4, 5, 18, 19, 21, 22, 23]),
      (''arduino_uno'', [2, 3, 4, 5, 6, 7, 8, 9, 10, 11, 12, 13]),
      (''arduino_mega'', [2, 3, 4, 5, 6, 7, 8, 9, 10, 11, 12, 13]),
      (''stm32'', [0, 1, 2, 3, 4, 5])]"

definition pwm_pins :: "(string \<times> int list) list" where
  "pwm_pins =
     [(''esp32'', [2, 4, 5, 12, 13, 14, 15, 16, 17, 18, 19, 21, 22, 23]),
      (''arduino_uno'', [3, 5, 6, 9, 10, 11]),
      (''arduino_mega'', [2, 3, 4, 5, 6, 7, 8, 9, 10, 11, 12, 13]),
      (''stm32'', [0, 1, 2, 3])]"

definition i2c_defaults :: "(string \<times> (string \<times> int) list) list" where
  "i2c_defaults =
     [(''esp32'', [(''SDA'', 21), (''SCL'', 22)]),
      (''arduino_uno'', [(''SDA'', 18), (''SCL'', 19)]),
      (''arduino_mega'', [(''SDA'', 20), (''SCL'', 21)]),
      (''stm32'', [(''SDA'', 9), (''SCL'', 8)])]"

definition spi_defaults :: "(string \<times> (string \<times> int) list) list" where
  "spi_defaults =
     [(''esp32'', [(''MOSI'', 23), (''MISO'', 19), (''SCK'', 18), (''CS'', 5)]),
      (''arduino_uno'', [(''MOSI'', 11), (''MISO'', 12), (''SCK'', 13), (''CS'', 10)]),
      (''arduino_mega'', [(''MOSI'', 51), (''MISO'', 50), (''SCK'', 52), (''CS'', 53)]),
      (''stm32'', [(''MOSI'', 11), (''MISO'', 12), (''SCK'', 13), (''CS'', 10)])]"

definition uart_defaults :: "(string \<times> (string \<times> int) list) list" where
  "uart_defaults =
     [(''esp32'', [(''TX'', 1), (''RX'', 3)]),
      (''arduino_uno'', [(''TX'', 1), (''RX'', 0)]),
      (''arduino_mega'', [(''TX'', 1), (''RX'', 0)]),
      (''stm32'', [(''TX'', 2), (''RX'', 3)])]"

text \<open>
  The shared tail of \<^verbatim>\<open>_find_best_gpio\<close> and \<^verbatim>\<open>_find_pwm_pin\<close>: the first pin that
  is not a key of \<^verbatim>\<open>pin_usage\<close>, else \<^verbatim>\<open>available[0]\<close>. Every list of the two tables
  and both fallback lists are non-empty, so \<^verbatim>\<open>available[0]\<close> never raises and is
  \<open>hd\<close>.
\<close>

definition first_unused :: "pin_usage \<Rightarrow> int list \<Rightarrow> int" where
  "first_unused pu available =
     (case find (\<lambda>pin. map_of pu pin = None) available of
        Some pin \<Rightarrow> pin
      | None \<Rightarrow> hd available)"

definition find_best_gpio :: "pin_usage \<Rightarrow> string \<Rightarrow> int" where
  "find_best_gpio pu b =
     first_unused pu (case map_of gpio_defaults b of Some l \<Rightarrow> l | None \<Rightarrow> [2])"

definition find_pwm_pin :: "pin_usage \<Rightarrow> string \<Rightarrow> int" where
  "find_pwm_pin pu b =
     first_unused pu (case map_of pwm_pins b of Some l \<Rightarrow> l | None \<Rightarrow> [13])"

definition find_i2c_pins :: "string \<Rightarrow> (string \<times> int) list" where
  "find_i2c_pins b =
     (case map_of i2c_defaults b of Some d \<Rightarrow> d | None \<Rightarrow> [(''SDA'', 21), (''SCL'', 22)])"

definition find_spi_pins :: "string \<Rightarrow> (string \<times> int) list" where
  "find_spi_pins b =
     (case map_of spi_defaults b of Some d \<Rightarrow> d
      | None \<Rightarrow> [(''MOSI'', 23), (''MISO'', 19), (''SCK'', 18), (''CS'', 5)])"

definition find_uart_pins :: "string \<Rightarrow> (string \<times> int) list" where
  "find_uart_pins b =
     (case map_of uart_defaults b of Some d \<Rightarrow> d | None \<Rightarrow> [(''TX'', 1), (''RX'', 3)])"

text \<open>
  \<^verbatim>\<open>auto_assign_pins\<close>: the assigned pins, and \<^verbatim>\<open>self.pin_usage\<close> after the final
  loop \<^verbatim>\<open>self.pin_usage[pin] = peripheral_type\<close>.
\<close>

definition auto_assign_pins ::
  "pin_usage \<Rightarrow> string \<Rightarrow> string \<Rightarrow> (string \<times> int) list \<times> pin_usage" where
  "auto_assign_pins pu b peripheral_type =
     (let assigned_pins =
        (if peripheral_type = ''led'' then [(''LED'', find_best_gpio pu b)]
         else if peripheral_type = ''dht22'' \<or> peripheral_type = ''dht11'' then
           [(''DATA'', find_best_gpio pu b)]
         else if peripheral_type = ''servo'' then [(''SERVO'', find_pwm_pin pu b)]
         else if peripheral_type = ''i2c'' then find_i2c_pins b
         else if peripheral_type = ''spi'' then find_spi_pins b
         else if peripheral_type = ''uart'' then find_uart_pins b
         else [])
      in (assigned_pins,
          fold (\<lambda>(role, pin) u. AList.update pin peripheral_type u) assigned_pins pu))"

text \<open>\<^verbatim>\<open>reset\<close>: \<^verbatim>\<open>self.pin_usage = {}\<close>.\<close>

definition reset :: "pin_usage \<Rightarrow> pin_usage" where
  "reset pu = []"

section \<open>Vocabulary for the properties\<close>

text \<open>
  The (component, pin dict) pairs in the order the two nested loops of
  \<^verbatim>\<open>validate_and_resolve\<close> visit them: the bindings of the input.
\<close>

definition cname_of :: "connection \<Rightarrow> string" where
  "cname_of conn = (case component conn of None \<Rightarrow> ''Unknown'' | Some c \<Rightarrow> c)"

definition entries :: "connection list \<Rightarrow> (string \<times> pin_entry) list" where
  "entries conns = concat (map (\<lambda>conn. map (\<lambda>p. (cname_of conn, p)) (pins conn)) conns)"

definition entry_pin :: "pin_entry \<Rightarrow> int" where
  "entry_pin p = parse_pin_number (mcu_pin_str p)"

definition entry_type :: "pin_entry \<Rightarrow> string" where
  "entry_type p = (case pin_type p of None \<Rightarrow> ''GPIO'' | Some t \<Rightarrow> t)"

text \<open>
  The issues one pass of the inner loop appends for a binding, given the pins claimed
  before it: these are the issues against that binding.
\<close>

definition entry_issues :: "hal \<Rightarrow> int set \<Rightarrow> string \<times> pin_entry \<Rightarrow> validation_issue list" where
  "entry_issues h used e =
     validate_pin h (entry_pin (snd e)) (entry_type (snd e)) (fst e)
     @ (if entry_pin (snd e) \<in> used then [conflict_issue (entry_pin (snd e))] else [])"

text \<open>The pins of the bindings declared before position \<open>k\<close>.\<close>

definition pins_before :: "connection list \<Rightarrow> nat \<Rightarrow> int set" where
  "pins_before conns k = set (map (entry_pin \<circ> snd) (take k (entries conns)))"

text \<open>The pin of the last-listed binding of a component, if it has any.\<close>

definition last_pin :: "connection list \<Rightarrow> string \<Rightarrow> int option" where
  "last_pin conns c = map_of (rev (map (\<lambda>e. (fst e, entry_pin (snd e))) (entries conns))) c"

text \<open>
  The component names the repair pass reads out of the critical capability issues:
  the keys of \<^verbatim>\<open>fixed_resolved\<close> it may assign.
\<close>

definition fix_targets :: "validation_issue list \<Rightarrow> string list" where
  "fix_targets iss =
     List.map_filter
       (\<lambda>i. if severity i = ''critical'' \<and> type i = ''wrong_capability''
            then search_for_word (message i) else None) iss"

text \<open>
  The connection dict \<^verbatim>\<open>{"component": c, "pins": [{"mcu_pin": p, "type": t}]}\<close>, for
  writing concrete inputs.
\<close>

definition single_pin :: "string \<Rightarrow> string \<Rightarrow> string \<Rightarrow> connection" where
  "single_pin c p t =
     \<lparr> component = Some c, pins = [\<lparr> mcu_pin = Some (PinStr p), pin_type = Some t \<rparr>] \<rparr>"

text \<open>
  Concrete inputs. \<open>motor_servo_button\<close> is
  \<^verbatim>\<open>[{"component": "Motor", "pins": [{"mcu_pin": "4", "type": "GPIO"}, {"mcu_pin": "5", "type": "GPIO"}]},
   {"component": "Servo", "pins": [{"mcu_pin": "0", "type": "PWM"}]},
   {"component": "Button", "pins": [{"mcu_pin": "4", "type": "GPIO"}]}]\<close>,
  \<open>sensor_two_pins\<close> is
  \<^verbatim>\<open>[{"component": "Sensor", "pins": [{"mcu_pin": "3", "type": "GPIO"}, {"mcu_pin": "7", "type": "ADC"}]}]\<close>
  and \<open>motor_two_pins\<close> is
  \<^verbatim>\<open>[{"component": "Motor", "pins": [{"mcu_pin": "4", "type": "GPIO"}, {"mcu_pin": "0", "type": "PWM"}]}]\<close>.
\<close>

definition motor_servo_button :: "connection list" where
  "motor_servo_button =
     [\<lparr> component = Some ''Motor'',
         pins = [\<lparr> mcu_pin = Some (PinStr ''4''), pin_type = Some ''GPIO'' \<rparr>,
                 \<lparr> mcu_pin = Some (PinStr ''5''), pin_type = Some ''GPIO'' \<rparr>] \<rparr>,
      single_pin ''Servo'' ''0'' ''PWM'', single_pin ''Button'' ''4'' ''GPIO'']"

definition sensor_two_pins :: "connection list" where
  "sensor_two_pins =
     [\<lparr> component = Some ''Sensor'',
         pins = [\<lparr> mcu_pin = Some (PinStr ''3''), pin_type = Some ''GPIO'' \<rparr>,
                 \<lparr> mcu_pin = Some (PinStr ''7''), pin_type = Some ''ADC'' \<rparr>] \<rparr>]"

definition motor_two_pins :: "connection list" where
  "motor_two_pins =
     [\<lparr> component = Some ''Motor'',
         pins = [\<lparr> mcu_pin = Some (PinStr ''4''), pin_type = Some ''GPIO'' \<rparr>,
                 \<lparr> mcu_pin = Some (PinStr ''0''), pin_type = Some ''PWM'' \<rparr>] \<rparr>]"

text \<open>
  \<open>led_servo\<close> is
  \<^verbatim>\<open>[{"component": "LED", "pins": [{"mcu_pin": "2", "type": "GPIO"}]},
   {"component": "Servo", "pins": [{"mcu_pin": "0", "type": "PWM"}]}]\<close>.
\<close>

definition led_servo :: "connection list" where
  "led_servo = [single_pin ''LED'' ''2'' ''GPIO'', single_pin ''Servo'' ''0'' ''PWM'']"

text \<open>
  \<open>servo_and_servo_motor\<close> is
  \<^verbatim>\<open>[{"component": "Servo", "pins": [{"mcu_pin": "4", "type": "PWM"}]},
   {"component": "Servo Motor", "pins": [{"mcu_pin": "0", "type": "PWM"}]}]\<close>.
\<close>

definition servo_and_servo_motor :: "connection list" where
  "servo_and_servo_motor =
     [single_pin ''Servo'' ''4'' ''PWM'', single_pin ''Servo Motor'' ''0'' ''PWM'']"

text \<open>
  The reserved-pin warning \<^verbatim>\<open>_validate_pin\<close> appends for a reserved pin, by name.
\<close>

definition reserved_pin_warning :: "int \<Rightarrow> validation_issue" where
  "reserved_pin_warning p =
     \<lparr> type = ''reserved_pin'', severity = ''warning'',
       message = ''Pin '' @ str_int p @ '' is reserved (boot/flash)'',
       suggested_fix = Some ''Use different pin if possible'' \<rparr>"

text \<open>
  main.py, stage 2 of the \<^verbatim>\<open>/execute\<close> handler (the \<^verbatim>\<open>/chat\<close> handler does the same):
  \<^verbatim>\<open>hal = IntelligentHAL(effective_board)\<close>, then
  \<^verbatim>\<open>hal.validate_and_resolve(firmware_package.pin_json)\<close>. The instance is built for
  the request; the state that outlives a request is the table \<^verbatim>\<open>pin_usage\<close> of the
  module-level \<^verbatim>\<open>pin_mapper\<close>, which this stage neither reads nor writes. The model
  passes the table through, as it does for \<open>auto_assign_pins\<close>.
\<close>

definition hal_validation_stage ::
  "pin_usage \<Rightarrow> string \<Rightarrow> connection list
     \<Rightarrow> ((string \<times> int) list \<times> validation_issue list) \<times> pin_usage" where
  "hal_validation_stage pu effective_board pin_json =
     (validate_and_resolve (IntelligentHAL effective_board) pin_json, pu)"

text \<open>
  \<open>servo_two_pins\<close> is
  \<^verbatim>\<open>[{"component": "Servo", "pins": [{"mcu_pin": "18", "type": "PWM"}]},
   {"component": "Servo", "pins": [{"mcu_pin": "19", "type": "PWM"}]}]\<close>
  and \<open>led_flash\<close> is
  \<^verbatim>\<open>[{"component": "LED", "pins": [{"mcu_pin": "GPIO2", "type": "GPIO"}]},
   {"component": "Flash", "pins": [{"mcu_pin": "6", "type": "GPIO"}]}]\<close>.
\<close>

definition servo_two_pins :: "connection list" where
  "servo_two_pins = [single_pin ''Servo'' ''18'' ''PWM'', single_pin ''Servo'' ''19'' ''PWM'']"

definition led_flash :: "connection list" where
  "led_flash = [single_pin ''LED'' ''GPIO2'' ''GPIO'', single_pin ''Flash'' ''6'' ''GPIO'']"

section \<open>Facts about the text helpers\<close>

lemma digit_val_digit_char: "d < 10 \<Longrightarrow> digit_val (digit_char d) = int d"
  by (simp add: digit_val_def digit_char_def)

lemma digit_chars: "map digit_char [0..<10] = ''0123456789''"
  by code_simp

lemma is_digit_digit_char: "d < 10 \<Longrightarrow> is_digit (digit_char d)"
proof -
  assume "d < 10"
  then have "digit_char d \<in> set (map digit_char [0..<10])" by simp
  then show ?thesis
    unfolding digit_chars is_digit_def .
qed

lemma str_nat_digits: "\<forall>c \<in> set (str_nat n). is_digit c"
proof (induction n rule: str_nat.induct)
  case (1 n)
  show ?case
  proof (cases "n < 10")
    case True
    then show ?thesis by (subst str_nat.simps) (simp add: is_digit_digit_char)
  next
    case False
    with 1 show ?thesis by (subst str_nat.simps) (simp add: is_digit_digit_char)
  qed
qed

lemma str_nat_nonempty: "str_nat n \<noteq> []"
  by (subst str_nat.simps) simp

lemma int_of_digits_snoc: "int_of_digits (ds @ [c]) = 10 * int_of_digits ds + digit_val c"
  by (simp add: int_of_digits_def)

lemma int_of_digits_str_nat: "int_of_digits (str_nat n) = int n"
proof (induction n rule: str_nat.induct)
  case (1 n)
  show ?case
  proof (cases "n < 10")
    case True
    then show ?thesis
      by (subst str_nat.simps) (simp add: int_of_digits_def digit_val_digit_char)
  next
    case False
    with 1 have "int_of_digits (str_nat (n div 10)) = int (n div 10)" by simp
    with False show ?thesis
      by (subst str_nat.simps) (simp add: int_of_digits_snoc digit_val_digit_char, presburger)
  qed
qed

lemma str_nat_inj: "str_nat m = str_nat n \<Longrightarrow> m = n"
  by (metis int_of_digits_str_nat of_nat_eq_iff)

lemma minus_not_digit: "\<not> is_digit (CHR ''-'')"
  by (simp add: is_digit_def)

lemma str_int_inj: "str_int i = str_int j \<Longrightarrow> i = j"
proof -
  assume eq: "str_int i = str_int j"
  have nd: "\<And>n. CHR ''-'' \<notin> set (str_nat n)"
    using str_nat_digits minus_not_digit by blast
  have hdn: "\<And>n ds. str_nat n \<noteq> CHR ''-'' # ds"
    using nd by (metis list.set_intros(1))
  show ?thesis
  proof (cases "i < 0"; cases "j < 0")
    assume "i < 0" "j < 0"
    with eq have "nat (- i) = nat (- j)" by (simp add: str_int_def str_nat_inj)
    with \<open>i < 0\<close> \<open>j < 0\<close> show ?thesis by simp
  next
    assume "i < 0" "\<not> j < 0"
    with eq hdn [of "nat j" "str_nat (nat (- i))"] show ?thesis by (simp add: str_int_def)
  next
    assume "\<not> i < 0" "j < 0"
    with eq hdn [of "nat i" "str_nat (nat (- j))"] show ?thesis by (simp add: str_int_def)
  next
    assume "\<not> i < 0" "\<not> j < 0"
    with eq have "nat i = nat j" by (simp add: str_int_def str_nat_inj)
    with \<open>\<not> i < 0\<close> \<open>\<not> j < 0\<close> show ?thesis by simp
  qed
qed

lemma search_digits_embedded:
  assumes pre: "\<forall>c \<in> set pre. \<not> is_digit c"
    and ds: "ds \<noteq> []" "\<forall>c \<in> set ds. is_digit c"
    and post: "post = [] \<or> \<not> is_digit (hd post)"
  shows "search_digits (pre @ ds @ post) = Some ds"
proof -
  from ds have "is_digit (hd (ds @ post))" by (cases ds) auto
  with pre ds have "dropWhile (\<lambda>c. \<not> is_digit c) (pre @ ds @ post) = ds @ post"
    by (cases ds) (auto simp: dropWhile_append)
  moreover from ds post have "takeWhile is_digit (ds @ post) = ds"
    by (cases post) (auto simp: takeWhile_tail)
  ultimately show ?thesis using ds by (simp add: search_digits_def)
qed

lemma search_digits_none:
  "(\<forall>c \<in> set s. \<not> is_digit c) \<Longrightarrow> search_digits s = None"
proof -
  assume "\<forall>c \<in> set s. \<not> is_digit c"
  then have d: "dropWhile (\<lambda>c. \<not> is_digit c) s = []" by simp
  show ?thesis unfolding search_digits_def Let_def d by simp
qed

lemma search_digits_none_iff: "search_digits s = None \<longleftrightarrow> (\<forall>c \<in> set s. \<not> is_digit c)"
proof
  assume n: "search_digits s = None"
  show "\<forall>c \<in> set s. \<not> is_digit c"
  proof (rule ccontr)
    assume "\<not> (\<forall>c \<in> set s. \<not> is_digit c)"
    then have ne: "dropWhile (\<lambda>c. \<not> is_digit c) s \<noteq> []" by simp
    then have "is_digit (hd (dropWhile (\<lambda>c. \<not> is_digit c) s))"
      using hd_dropWhile [of "\<lambda>c. \<not> is_digit c" s] by simp
    with ne have "takeWhile is_digit (dropWhile (\<lambda>c. \<not> is_digit c) s) \<noteq> []"
      by (cases "dropWhile (\<lambda>c. \<not> is_digit c) s") auto
    with n show False by (simp add: search_digits_def Let_def)
  qed
qed (rule search_digits_none)

section \<open>Facts about the validation loops\<close>

lemma validate_entry_alt:
  "validate_entry h c p s =
     \<lparr> issues = issues s @ entry_issues h (used_pins s) (c, p),
       resolved = AList.update c (entry_pin p) (resolved s),
       used_pins = insert (entry_pin p) (used_pins s) \<rparr>"
  by (simp add: validate_entry_def entry_issues_def entry_pin_def entry_type_def Let_def)

lemma validate_conn_entries:
  "validate_conn h conn s =
     fold (\<lambda>e. validate_entry h (fst e) (snd e)) (map (\<lambda>p. (cname_of conn, p)) (pins conn)) s"
  by (simp add: validate_conn_def cname_of_def fold_map comp_def)

lemma validate_loop_entries:
  "fold (validate_conn h) conns s =
     fold (\<lambda>e. validate_entry h (fst e) (snd e)) (entries conns) s"
proof (induction conns arbitrary: s)
  case Nil
  show ?case by (simp add: entries_def)
next
  case (Cons conn conns)
  have "entries (conn # conns) = map (\<lambda>p. (cname_of conn, p)) (pins conn) @ entries conns"
    by (simp add: entries_def)
  then show ?case
    using Cons.IH by (simp add: validate_conn_entries)
qed

lemma fold_entries_used:
  "used_pins (fold (\<lambda>e. validate_entry h (fst e) (snd e)) es s) =
     used_pins s \<union> set (map (entry_pin \<circ> snd) es)"
  by (induction es arbitrary: s) (auto simp: validate_entry_alt)

lemma fold_entries_resolved:
  "map_of (resolved (fold (\<lambda>e. validate_entry h (fst e) (snd e)) es s)) =
     map_of (resolved s) ++ map_of (rev (map (\<lambda>e. (fst e, entry_pin (snd e))) es))"
proof (induction es arbitrary: s)
  case Nil
  show ?case by simp
next
  case (Cons e es)
  have "map_of (resolved (validate_entry h (fst e) (snd e) s)) =
          (map_of (resolved s))(fst e \<mapsto> entry_pin (snd e))"
    by (simp add: validate_entry_alt update_conv')
  then show ?case
    using Cons.IH [of "validate_entry h (fst e) (snd e) s"]
    by (auto simp: fun_eq_iff map_add_def split: option.splits)
qed

lemma fold_entries_issues:
  "issues (fold (\<lambda>e. validate_entry h (fst e) (snd e)) es s) =
     issues s @ concat (map (\<lambda>k. entry_issues h
        (used_pins s \<union> set (map (entry_pin \<circ> snd) (take k es))) (es ! k)) [0..<length es])"
proof (induction es arbitrary: s)
  case Nil
  show ?case by simp
next
  case (Cons e es)
  have up: "[0..<length (e # es)] = 0 # map Suc [0..<length es]"
    by (simp add: upt_conv_Cons map_Suc_upt del: upt_Suc)
  show ?case
    unfolding up
    using Cons.IH [of "validate_entry h (fst e) (snd e) s"]
    by (simp add: validate_entry_alt comp_def Un_commute insert_commute del: upt_Suc)
qed

lemma validate_loop_issues:
  "issues (validate_loop h conns) =
     concat (map (\<lambda>k. entry_issues h (pins_before conns k) (entries conns ! k))
               [0..<length (entries conns)])"
  by (simp add: validate_loop_def validate_loop_entries fold_entries_issues pins_before_def)

lemma validate_loop_used:
  "used_pins (validate_loop h conns) = set (map (entry_pin \<circ> snd) (entries conns))"
  by (simp add: validate_loop_def validate_loop_entries fold_entries_used)

lemma validate_loop_resolved:
  "map_of (resolved (validate_loop h conns)) c = last_pin conns c"
  by (simp add: validate_loop_def validate_loop_entries fold_entries_resolved last_pin_def)

section \<open>Facts about the repair pass\<close>

lemma validate_pin_severity:
  "i \<in> set (validate_pin h pin t c) \<Longrightarrow> severity i = ''critical'' \<or> severity i = ''warning''"
  by (auto simp: validate_pin_def split: if_splits)

lemma entry_issues_severity:
  "i \<in> set (entry_issues h u e) \<Longrightarrow> severity i = ''critical'' \<or> severity i = ''warning''"
  by (auto simp: entry_issues_def conflict_issue_def dest: validate_pin_severity split: if_splits)

lemma validate_loop_severity:
  "i \<in> set (issues (validate_loop h conns)) \<Longrightarrow>
     severity i = ''critical'' \<or> severity i = ''warning''"
  by (auto simp: validate_loop_issues dest: entry_issues_severity)

lemma assign_first_free_frame:
  "c \<noteq> n \<Longrightarrow> map_of (fixed_resolved (assign_first_free cands n s)) c = map_of (fixed_resolved s) c"
  by (simp add: assign_first_free_def update_conv' split: option.splits)

lemma assign_first_free_remaining:
  "remaining_issues (assign_first_free cands n s) = remaining_issues s"
  by (simp add: assign_first_free_def split: option.splits)

lemma assign_first_free_distinct:
  "distinct (map fst (fixed_resolved s)) \<Longrightarrow>
     distinct (map fst (fixed_resolved (assign_first_free cands n s)))"
  by (simp add: assign_first_free_def distinct_update split: option.splits)

lemma assign_first_free_keys:
  "fst ` set (fixed_resolved s) \<subseteq> fst ` set (fixed_resolved (assign_first_free cands n s))"
proof -
  have "dom (map_of (fixed_resolved s))
          \<subseteq> dom (map_of (fixed_resolved (assign_first_free cands n s)))"
    by (auto simp: assign_first_free_def update_conv' split: option.splits)
  then show ?thesis by (simp add: dom_map_of_conv_image_fst)
qed

lemma auto_fix_issue_frame:
  "c \<notin> set (fix_targets [i]) \<Longrightarrow>
     map_of (fixed_resolved (auto_fix_issue h i s)) c = map_of (fixed_resolved s) c"
  by (auto simp: auto_fix_issue_def fix_targets_def
        assign_first_free_frame split: option.splits if_splits)

lemma fix_targets_Cons: "fix_targets (i # iss) = fix_targets [i] @ fix_targets iss"
  by (simp add: fix_targets_def split: option.splits)

lemma auto_fix_fold_frame:
  "c \<notin> set (fix_targets iss) \<Longrightarrow>
     map_of (fixed_resolved (fold (auto_fix_issue h) iss s)) c = map_of (fixed_resolved s) c"
proof (induction iss arbitrary: s)
  case Nil
  show ?case by simp
next
  case (Cons i iss)
  from Cons.prems have a: "c \<notin> set (fix_targets [i])" and b: "c \<notin> set (fix_targets iss)"
    by (simp_all add: fix_targets_Cons [of i iss])
  show ?case using Cons.IH [OF b] auto_fix_issue_frame [OF a] by simp
qed

lemma auto_fix_issue_distinct:
  "distinct (map fst (fixed_resolved s)) \<Longrightarrow>
     distinct (map fst (fixed_resolved (auto_fix_issue h i s)))"
  by (simp add: auto_fix_issue_def assign_first_free_distinct split: option.splits)

lemma auto_fix_issue_keys:
  "fst ` set (fixed_resolved s) \<subseteq> fst ` set (fixed_resolved (auto_fix_issue h i s))"
  using assign_first_free_keys
  by (simp add: auto_fix_issue_def split: option.splits)

lemma auto_fix_fold_distinct:
  "distinct (map fst (fixed_resolved s)) \<Longrightarrow>
     distinct (map fst (fixed_resolved (fold (auto_fix_issue h) iss s)))"
  by (induction iss arbitrary: s) (simp_all add: auto_fix_issue_distinct)

lemma auto_fix_fold_keys:
  "fst ` set (fixed_resolved s) \<subseteq> fst ` set (fixed_resolved (fold (auto_fix_issue h) iss s))"
proof (induction iss arbitrary: s)
  case Nil
  show ?case by simp
next
  case (Cons i iss)
  show ?case using Cons.IH [of "auto_fix_issue h i s"] auto_fix_issue_keys [of s h i] by auto
qed

lemma auto_fix_issue_remaining_severity:
  "\<forall>j \<in> set (remaining_issues s). severity j \<noteq> ''critical'' \<Longrightarrow>
     \<forall>j \<in> set (remaining_issues (auto_fix_issue h i s)). severity j \<noteq> ''critical''"
  by (auto simp: auto_fix_issue_def assign_first_free_remaining split: option.splits)

lemma auto_fix_fold_remaining_severity:
  "\<forall>j \<in> set (remaining_issues s). severity j \<noteq> ''critical'' \<Longrightarrow>
     \<forall>j \<in> set (remaining_issues (fold (auto_fix_issue h) iss s)). severity j \<noteq> ''critical''"
proof (induction iss arbitrary: s)
  case Nil
  then show ?case by simp
next
  case (Cons i iss)
  show ?case
    using Cons.IH [OF auto_fix_issue_remaining_severity [OF Cons.prems, of h i]] by simp
qed

lemma fold_entries_distinct:
  "distinct (map fst (resolved s)) \<Longrightarrow>
     distinct (map fst (resolved (fold (\<lambda>e. validate_entry h (fst e) (snd e)) es s)))"
  by (induction es arbitrary: s) (simp_all add: validate_entry_alt distinct_update)

lemma validate_loop_distinct: "distinct (map fst (resolved (validate_loop h conns)))"
  by (simp add: validate_loop_def validate_loop_entries fold_entries_distinct)

lemma validate_loop_keys:
  "fst ` set (resolved (validate_loop h conns)) = fst ` set (entries conns)"
proof -
  have "dom (map_of (resolved (validate_loop h conns))) = fst ` set (entries conns)"
    by (auto simp: dom_def validate_loop_resolved last_pin_def map_of_eq_None_iff image_image
        simp flip: not_None_eq)
  then show ?thesis by (simp add: dom_map_of_conv_image_fst)
qed

section \<open>Counting the conflict issues\<close>

lemma validate_pin_not_conflict: "conflict_issue q \<notin> set (validate_pin h pin t c)"
  by (auto simp: validate_pin_def conflict_issue_def split: if_splits)

lemma conflict_issue_inj: "conflict_issue p = conflict_issue q \<longleftrightarrow> p = q"
  by (auto simp: conflict_issue_def dest: str_int_inj)

lemma entry_issues_count_conflict:
  "count_list (entry_issues h u e) (conflict_issue q) =
     (if entry_pin (snd e) = q \<and> q \<in> u then 1 else 0)"
  using validate_pin_not_conflict [of q h "entry_pin (snd e)" "entry_type (snd e)" "fst e"]
  by (auto simp: entry_issues_def conflict_issue_inj count_list_0_iff)

lemma fold_entries_count_conflict:
  "count_list (issues (fold (\<lambda>e. validate_entry h (fst e) (snd e)) es s)) (conflict_issue q) =
     count_list (issues s) (conflict_issue q)
     + (if q \<in> used_pins s then count_list (map (entry_pin \<circ> snd) es) q
        else count_list (map (entry_pin \<circ> snd) es) q - 1)"
proof (induction es arbitrary: s)
  case Nil
  show ?case by simp
next
  case (Cons e es)
  let ?s' = "validate_entry h (fst e) (snd e) s"
  have i: "issues ?s' = issues s @ entry_issues h (used_pins s) e"
    and u: "used_pins ?s' = insert (entry_pin (snd e)) (used_pins s)"
    by (simp_all add: validate_entry_alt)
  show ?case
    using Cons.IH [of ?s']
    by (simp add: i u entry_issues_count_conflict)
qed

section \<open>What the repair pass reads from the issue messages\<close>

lemma search_for_word_skip:
  "CHR ''f'' \<notin> set pre \<Longrightarrow> search_for_word (pre @ rest) = search_for_word rest"
  by (induction pre) auto

lemma str_int_no_f: "CHR ''f'' \<notin> set (str_int i)"
proof -
  have "\<not> is_digit (CHR ''f'')" by (simp add: is_digit_def)
  then have "\<And>n. CHR ''f'' \<notin> set (str_nat n)" using str_nat_digits by blast
  then show ?thesis by (simp add: str_int_def)
qed

lemma search_for_word_at:
  assumes "c \<noteq> []" "\<forall>ch \<in> set c. is_word ch"
  shows "search_for_word (''for '' @ c) = Some c"
proof -
  from assms have tw: "takeWhile is_word c = c" by simp
  show ?thesis using assms(1) by (simp add: tw)
qed

lemma search_for_word_pwm_message:
  assumes "c \<noteq> []" "\<forall>ch \<in> set c. is_word ch"
  shows "search_for_word (''Pin '' @ str_int pin @ '' not PWM-capable for '' @ c) = Some c"
proof -
  have "search_for_word (''Pin '' @ str_int pin @ '' not PWM-capable for '' @ c) =
        search_for_word (str_int pin @ '' not PWM-capable for '' @ c)"
    by simp
  also have "\<dots> = search_for_word ('' not PWM-capable for '' @ c)"
    by (rule search_for_word_skip [OF str_int_no_f])
  also have "\<dots> = search_for_word (''for '' @ c)"
    by simp
  finally show ?thesis using search_for_word_at [OF assms] by simp
qed

lemma search_for_word_adc_message:
  assumes "c \<noteq> []" "\<forall>ch \<in> set c. is_word ch"
  shows "search_for_word (''Pin '' @ str_int pin @ '' not ADC-capable for '' @ c) = Some c"
proof -
  have "search_for_word (''Pin '' @ str_int pin @ '' not ADC-capable for '' @ c) =
        search_for_word (str_int pin @ '' not ADC-capable for '' @ c)"
    by simp
  also have "\<dots> = search_for_word ('' not ADC-capable for '' @ c)"
    by (rule search_for_word_skip [OF str_int_no_f])
  also have "\<dots> = search_for_word (''for '' @ c)"
    by simp
  finally show ?thesis using search_for_word_at [OF assms] by simp
qed

lemma fix_targets_Nil: "fix_targets [] = []"
  by (simp add: fix_targets_def)

lemma fix_targets_append: "fix_targets (xs @ ys) = fix_targets xs @ fix_targets ys"
  by (simp add: fix_targets_def List.map_filter_def)

lemma fix_targets_concat: "set (fix_targets (concat xss)) = (\<Union>xs \<in> set xss. set (fix_targets xs))"
  by (induction xss) (simp_all add: fix_targets_append fix_targets_def List.map_filter_def)

lemma fix_targets_validate_pin:
  assumes "c \<noteq> []" "\<forall>ch \<in> set c. is_word ch"
    and "n \<in> set (fix_targets (validate_pin h pin t c))"
  shows "n = c \<and> (\<exists>i \<in> set (validate_pin h pin t c). severity i = ''critical'')"
  using assms(3) search_for_word_pwm_message [OF assms(1,2)]
    search_for_word_adc_message [OF assms(1,2)]
  by (auto simp: validate_pin_def fix_targets_def List.map_filter_def split: if_splits)

lemma fix_targets_entry_issues:
  assumes "fst e \<noteq> []" "\<forall>ch \<in> set (fst e). is_word ch"
    and "n \<in> set (fix_targets (entry_issues h u e))"
  shows "n = fst e \<and> (\<exists>i \<in> set (entry_issues h u e). severity i = ''critical'')"
proof -
  define vp where "vp = validate_pin h (entry_pin (snd e)) (entry_type (snd e)) (fst e)"
  have c: "fix_targets [conflict_issue (entry_pin (snd e))] = []"
    by (simp add: fix_targets_def List.map_filter_def conflict_issue_def)
  have "fix_targets (entry_issues h u e) = fix_targets vp"
    by (simp add: entry_issues_def fix_targets_append fix_targets_Nil c vp_def)
  with assms(3) have "n \<in> set (fix_targets vp)" by simp
  from fix_targets_validate_pin [OF assms(1,2) this [unfolded vp_def]]
  have "n = fst e" and "\<exists>i \<in> set vp. severity i = ''critical''"
    by (simp_all add: vp_def)
  moreover have "set vp \<subseteq> set (entry_issues h u e)"
    by (simp add: entry_issues_def vp_def)
  ultimately show ?thesis by blast
qed

lemma map_of_unique_key:
  assumes m: "(c, v) \<in> set xs" and u: "\<forall>v'. (c, v') \<in> set xs \<longrightarrow> v' = v"
  shows "map_of xs c = Some v"
proof -
  from m have "c \<in> fst ` set xs" by force
  then have "map_of xs c \<noteq> None" by (simp add: map_of_eq_None_iff)
  then obtain v' where s: "map_of xs c = Some v'" by blast
  then have "(c, v') \<in> set xs" by (rule map_of_SomeD)
  with u have "v' = v" by blast
  with s show ?thesis by simp
qed

lemma last_pin_unique:
  assumes k: "k < length (entries conns)"
    and uniq: "\<forall>j < length (entries conns). j \<noteq> k \<longrightarrow> fst (entries conns ! j) \<noteq> fst (entries conns ! k)"
  shows "last_pin conns (fst (entries conns ! k)) = Some (entry_pin (snd (entries conns ! k)))"
proof -
  define es where "es = entries conns"
  define L where "L = rev (map (\<lambda>e. (fst e, entry_pin (snd e))) es)"
  from k have "es ! k \<in> set es" by (simp add: es_def)
  then have "(\<lambda>e. (fst e, entry_pin (snd e))) (es ! k) \<in> set L"
    unfolding L_def set_rev set_map by (rule imageI)
  then have mem: "(fst (es ! k), entry_pin (snd (es ! k))) \<in> set L" by simp
  have un: "\<forall>v'. (fst (es ! k), v') \<in> set L \<longrightarrow> v' = entry_pin (snd (es ! k))"
  proof (intro allI impI)
    fix v' assume "(fst (es ! k), v') \<in> set L"
    then obtain e where e: "e \<in> set es" "fst e = fst (es ! k)" "v' = entry_pin (snd e)"
      unfolding L_def set_rev set_map by auto
    from e(1) obtain j where j: "j < length es" "es ! j = e" by (auto simp: in_set_conv_nth)
    from uniq j(1) have "j \<noteq> k \<longrightarrow> fst (es ! j) \<noteq> fst (es ! k)"
      by (simp add: es_def)
    with j(2) e(2) have "j = k" by blast
    with j(2) e(3) show "v' = entry_pin (snd (es ! k))" by simp
  qed
  from map_of_unique_key [OF mem un] show ?thesis
    by (simp add: last_pin_def L_def es_def)
qed

lemma auto_fix_frame:
  "c \<notin> set (fix_targets iss) \<Longrightarrow> map_of (fst (auto_fix h res iss)) c = map_of res c"
  by (simp add: auto_fix_def Let_def auto_fix_fold_frame)

lemma validate_and_resolve_frame:
  assumes "c \<notin> set (fix_targets (issues (validate_loop h conns)))"
  shows "map_of (fst (validate_and_resolve h conns)) c = last_pin conns c"
  using assms
  by (simp add: validate_and_resolve_def Let_def auto_fix_frame validate_loop_resolved)

lemma auto_fix_distinct:
  "distinct (map fst res) \<Longrightarrow> distinct (map fst (fst (auto_fix h res iss)))"
  by (simp add: auto_fix_def Let_def auto_fix_fold_distinct)

lemma auto_fix_keys: "fst ` set res \<subseteq> fst ` set (fst (auto_fix h res iss))"
  using auto_fix_fold_keys [of "\<lparr> fixed_resolved = res, remaining_issues = [],
           fix_used = set (map snd res) \<rparr>" h iss]
  by (simp add: auto_fix_def Let_def)

lemma validate_and_resolve_distinct:
  "distinct (map fst (fst (validate_and_resolve h conns)))"
  by (simp add: validate_and_resolve_def Let_def auto_fix_distinct validate_loop_distinct)

lemma validate_and_resolve_keys:
  "fst ` set (entries conns) \<subseteq> fst ` set (fst (validate_and_resolve h conns))"
  using auto_fix_keys [of "resolved (validate_loop h conns)" h "issues (validate_loop h conns)"]
  by (simp add: validate_and_resolve_def Let_def validate_loop_keys)

section \<open>Facts about pin parsing\<close>

lemma parse_pin_number_embedded:
  assumes "\<forall>c \<in> set pre. \<not> is_digit c" "ds \<noteq> []" "\<forall>c \<in> set ds. is_digit c"
    "post = [] \<or> \<not> is_digit (hd post)"
  shows "parse_pin_number (pre @ ds @ post) = int_of_digits ds"
  by (simp add: parse_pin_number_def search_digits_embedded [OF assms])

lemma parse_pin_number_prefixed:
  assumes "\<forall>c \<in> set pre. \<not> is_digit c"
  shows "parse_pin_number (pre @ str_nat n) = int n"
proof -
  have "parse_pin_number (pre @ str_nat n @ []) = int_of_digits (str_nat n)"
    using assms str_nat_nonempty [of n] str_nat_digits [of n]
    by (intro parse_pin_number_embedded) simp_all
  then show ?thesis by (simp add: int_of_digits_str_nat)
qed

lemma parse_pin_number_no_digit:
  "\<forall>c \<in> set s. \<not> is_digit c \<Longrightarrow> parse_pin_number s = 0"
  by (simp add: parse_pin_number_def search_digits_none)

section \<open>Facts about the pin assigner\<close>

lemma fold_record_usage:
  "map_of (fold (\<lambda>(role, pin) u. AList.update pin pt u) assigned pu) p =
     (if p \<in> snd ` set assigned then Some pt else map_of pu p)"
proof (induction assigned arbitrary: pu)
  case Nil
  show ?case by simp
next
  case (Cons a assigned)
  show ?case
    using Cons.IH [of "AList.update (snd a) pt pu"]
    by (cases a) (auto simp: update_conv')
qed

lemma first_unused_skips:
  assumes "\<exists>p \<in> set available. map_of pu p = None"
  shows "first_unused pu available \<in> set available
         \<and> map_of pu (first_unused pu available) = None"
proof -
  from assms have "find (\<lambda>pin. map_of pu pin = None) available \<noteq> None"
    by (simp add: find_None_iff) blast
  then obtain p where f: "find (\<lambda>pin. map_of pu pin = None) available = Some p"
    by blast
  then have "p \<in> set available \<and> map_of pu p = None"
    unfolding find_Some_iff by (metis nth_mem)
  with f show ?thesis by (simp add: first_unused_def)
qed

lemma fold_record_usage_all:
  "\<forall>(role, pin) \<in> set assigned.
     map_of (fold (\<lambda>(role, pin) u. AList.update pin pt u) assigned pu) pin = Some pt"
  unfolding fold_record_usage by force

lemma auto_assign_pins_shape:
  "\<exists>assigned. auto_assign_pins pu b pt =
     (assigned, fold (\<lambda>(role, pin) u. AList.update pin pt u) assigned pu)"
  by (simp add: auto_assign_pins_def Let_def)

section \<open>Two boards with the same profile\<close>

lemma unknown_spec: "map_of BOARD_SPECS b = None \<Longrightarrow> spec (IntelligentHAL b) = esp32_spec"
  by (simp add: IntelligentHAL_def)

lemma esp32_spec_known: "spec (IntelligentHAL ''esp32'') = esp32_spec"
  by (simp add: IntelligentHAL_def BOARD_SPECS_def)

lemma validate_pin_same_spec:
  assumes "spec h1 = spec h2"
  shows "list_all2 (\<lambda>i j. severity i = severity j \<and> type i = type j
            \<and> (type i \<noteq> ''invalid_pin'' \<longrightarrow> i = j))
           (validate_pin h1 pin t c) (validate_pin h2 pin t c)"
  using assms by (simp add: validate_pin_def)

lemma entry_issues_same_spec:
  assumes "spec h1 = spec h2"
  shows "list_all2 (\<lambda>i j. severity i = severity j \<and> type i = type j
            \<and> (type i \<noteq> ''invalid_pin'' \<longrightarrow> i = j))
           (entry_issues h1 u e) (entry_issues h2 u e)"
  unfolding entry_issues_def
  by (intro list_all2_appendI validate_pin_same_spec [OF assms]) simp

lemma validate_loop_same_spec:
  assumes "spec h1 = spec h2"
  shows "list_all2 (\<lambda>i j. severity i = severity j \<and> type i = type j
            \<and> (type i \<noteq> ''invalid_pin'' \<longrightarrow> i = j))
           (issues (validate_loop h1 conns)) (issues (validate_loop h2 conns))"
  unfolding validate_loop_issues
  by (intro concat_transfer [THEN rel_funD] list.rel_refl_strong
        list.rel_map(1) [THEN iffD2] list.rel_map(2) [THEN iffD2]
        entry_issues_same_spec [OF assms])


lemma assign_first_free_same:
  assumes "fixed_resolved s1 = fixed_resolved s2" "fix_used s1 = fix_used s2"
  shows "fixed_resolved (assign_first_free cands n s1) = fixed_resolved (assign_first_free cands n s2)
       \<and> fix_used (assign_first_free cands n s1) = fix_used (assign_first_free cands n s2)"
  using assms by (simp add: assign_first_free_def split: option.splits)

lemma auto_fix_issue_same:
  assumes sp: "spec h1 = spec h2"
    and r: "severity i = severity j \<and> type i = type j \<and> (type i \<noteq> ''invalid_pin'' \<longrightarrow> i = j)"
    and s: "fixed_resolved s1 = fixed_resolved s2" "fix_used s1 = fix_used s2"
  shows "fixed_resolved (auto_fix_issue h1 i s1) = fixed_resolved (auto_fix_issue h2 j s2)
       \<and> fix_used (auto_fix_issue h1 i s1) = fix_used (auto_fix_issue h2 j s2)"
proof (cases "severity i = ''critical'' \<and> type i = ''wrong_capability''")
  case True
  with r have ij: "i = j" by simp
  from True ij have c: "severity j = ''critical''" "type j = ''wrong_capability''" by simp_all
  show ?thesis
  proof (cases "search_for_word (message j)")
    case None
    with c s show ?thesis by (simp add: auto_fix_issue_def ij)
  next
    case (Some n)
    note a = assign_first_free_same [OF s, of _ n]
    show ?thesis
    proof (cases "str_contains ''PWM'' (message j)")
      case True
      with c Some a [of "pwm_capable (spec h2)"] show ?thesis
        by (simp add: auto_fix_issue_def ij sp)
    next
      case False
      note nopwm = this
      show ?thesis
      proof (cases "str_contains ''ADC'' (message j)")
        case True
        with c Some nopwm a [of "adc_capable (spec h2)"] show ?thesis
          by (simp add: auto_fix_issue_def ij sp)
      next
        case False
        with c Some nopwm s show ?thesis
          by (simp add: auto_fix_issue_def ij)
      qed
    qed
  qed
next
  case False
  show ?thesis
  proof (cases "severity i = ''critical''")
    case True
    with False have t: "type i \<noteq> ''wrong_capability''" by simp
    from r have "severity j = severity i" "type j = type i" by simp_all
    with True t s show ?thesis
      by (simp add: auto_fix_issue_def)
  next
    case False
    moreover from r have "severity j = severity i" by simp
    ultimately show ?thesis using s
      by (simp add: auto_fix_issue_def)
  qed
qed

lemma auto_fix_fold_same:
  assumes sp: "spec h1 = spec h2"
    and r: "list_all2 (\<lambda>i j. severity i = severity j \<and> type i = type j
            \<and> (type i \<noteq> ''invalid_pin'' \<longrightarrow> i = j)) xs ys"
    and s: "fixed_resolved s1 = fixed_resolved s2" "fix_used s1 = fix_used s2"
  shows "fixed_resolved (fold (auto_fix_issue h1) xs s1) = fixed_resolved (fold (auto_fix_issue h2) ys s2)"
  using r s
proof (induction xs ys arbitrary: s1 s2 rule: list_all2_induct)
  case Nil
  then show ?case by simp
next
  case (Cons i xs j ys)
  from auto_fix_issue_same [OF sp Cons.hyps(1) Cons.prems]
  have "fixed_resolved (auto_fix_issue h1 i s1) = fixed_resolved (auto_fix_issue h2 j s2)"
    and "fix_used (auto_fix_issue h1 i s1) = fix_used (auto_fix_issue h2 j s2)"
    by simp_all
  from Cons.IH [OF this] show ?case by simp
qed

lemma same_critical:
  "list_all2 (\<lambda>i j. severity i = severity j \<and> type i = type j
            \<and> (type i \<noteq> ''invalid_pin'' \<longrightarrow> i = j)) xs ys
   \<Longrightarrow> (\<exists>i \<in> set xs. severity i = ''critical'') = (\<exists>j \<in> set ys. severity j = ''critical'')"
  by (induction xs ys rule: list_all2_induct) simp_all

lemma fold_entries_resolved_same:
  "resolved s1 = resolved s2 \<Longrightarrow>
     resolved (fold (\<lambda>e. validate_entry h1 (fst e) (snd e)) es s1)
     = resolved (fold (\<lambda>e. validate_entry h2 (fst e) (snd e)) es s2)"
  by (induction es arbitrary: s1 s2) (simp_all add: validate_entry_alt)

lemma validate_loop_resolved_same:
  "resolved (validate_loop h1 conns) = resolved (validate_loop h2 conns)"
  by (simp add: validate_loop_def validate_loop_entries fold_entries_resolved_same)

lemma validate_and_resolve_same_spec:
  assumes sp: "spec h1 = spec h2"
  shows "fst (validate_and_resolve h1 conns) = fst (validate_and_resolve h2 conns)"
proof -
  let ?i1 = "issues (validate_loop h1 conns)" and ?i2 = "issues (validate_loop h2 conns)"
  have r: "list_all2 (\<lambda>i j. severity i = severity j \<and> type i = type j
            \<and> (type i \<noteq> ''invalid_pin'' \<longrightarrow> i = j)) ?i1 ?i2"
    by (rule validate_loop_same_spec [OF sp])
  have c: "(\<exists>i \<in> set ?i1. severity i = ''critical'')
                 = (\<exists>i \<in> set ?i2. severity i = ''critical'')"
    by (rule same_critical [OF r])
  have f: "fst (auto_fix h1 (resolved (validate_loop h1 conns)) ?i1)
         = fst (auto_fix h2 (resolved (validate_loop h2 conns)) ?i2)"
    unfolding auto_fix_def Let_def fst_conv
    by (rule auto_fix_fold_same [OF sp r])
       (simp_all add: validate_loop_resolved_same [of h1 conns h2])
  show ?thesis
    unfolding validate_and_resolve_def Let_def c
    using f validate_loop_resolved_same [of h1 conns h2] by simp
qed

lemma defaults_nonempty:
  "(case map_of gpio_defaults b of Some l \<Rightarrow> l | None \<Rightarrow> [2]) \<noteq> []"
  "(case map_of pwm_pins b of Some l \<Rightarrow> l | None \<Rightarrow> [13]) \<noteq> []"
  by (simp_all add: gpio_defaults_def pwm_pins_def)

section \<open>Facts about a set with no critical issue\<close>

lemma map_of_rev_last_key:
  "k < length xs \<Longrightarrow> (\<forall>j < length xs. k < j \<longrightarrow> fst (xs ! j) \<noteq> fst (xs ! k))
     \<Longrightarrow> map_of (rev xs) (fst (xs ! k)) = Some (snd (xs ! k))"
proof (induction xs rule: rev_induct)
  case Nil
  then show ?case by simp
next
  case (snoc y ys)
  show ?case
  proof (cases "k = length ys")
    case True
    then show ?thesis by (cases y) simp
  next
    case False
    with snoc.prems(1) have k: "k < length ys" by simp
    from snoc.prems(2) [rule_format, of "length ys"] k
    have ne: "fst y \<noteq> fst (ys ! k)" by (simp add: nth_append)
    have "\<forall>j < length ys. k < j \<longrightarrow> fst (ys ! j) \<noteq> fst (ys ! k)"
    proof (intro allI impI)
      fix j assume j: "j < length ys" "k < j"
      with snoc.prems(2) [rule_format, of j] k show "fst (ys ! j) \<noteq> fst (ys ! k)"
        by (simp add: nth_append)
    qed
    from snoc.IH [OF k this] ne k show ?thesis
      by (cases y) (simp add: nth_append)
  qed
qed

lemma last_pin_last_binding:
  assumes k: "k < length (entries conns)"
    and l: "\<forall>j < length (entries conns). k < j \<longrightarrow> fst (entries conns ! j) \<noteq> fst (entries conns ! k)"
  shows "last_pin conns (fst (entries conns ! k)) = Some (entry_pin (snd (entries conns ! k)))"
proof -
  let ?L = "map (\<lambda>e. (fst e, entry_pin (snd e))) (entries conns)"
  have "map_of (rev ?L) (fst (?L ! k)) = Some (snd (?L ! k))"
    by (rule map_of_rev_last_key) (use k l in simp_all)
  with k show ?thesis by (simp add: last_pin_def rev_map)
qed

lemma validate_pin_without_critical:
  assumes nc: "\<forall>i \<in> set (validate_pin h pin t c). severity i \<noteq> ''critical''"
  shows "validate_pin h pin t c =
           (if pin \<in> set (reserved (spec h)) then [reserved_pin_warning pin] else [])"
proof -
  have av: "pin \<in> set (available_gpio (spec h))"
  proof (rule ccontr)
    assume "pin \<notin> set (available_gpio (spec h))"
    with nc show False by (simp add: validate_pin_def)
  qed
  have pw: "\<not> (t = ''PWM'' \<and> pin \<notin> set (pwm_capable (spec h)))"
  proof
    assume "t = ''PWM'' \<and> pin \<notin> set (pwm_capable (spec h))"
    with nc av show False by (simp add: validate_pin_def)
  qed
  have ad: "\<not> (t = ''ADC'' \<and> pin \<notin> set (adc_capable (spec h)))"
  proof
    assume "t = ''ADC'' \<and> pin \<notin> set (adc_capable (spec h))"
    with nc av show False by (simp add: validate_pin_def)
  qed
  from av pw ad show ?thesis
    by (simp add: validate_pin_def reserved_pin_warning_def)
qed

lemma entry_issues_without_critical:
  assumes "\<forall>i \<in> set (entry_issues h u e). severity i \<noteq> ''critical''"
  shows "entry_issues h u e =
           (if entry_pin (snd e) \<in> set (reserved (spec h))
            then [reserved_pin_warning (entry_pin (snd e))] else [])
         \<and> entry_pin (snd e) \<notin> u"
proof -
  have nu: "entry_pin (snd e) \<notin> u"
  proof
    assume "entry_pin (snd e) \<in> u"
    with assms show False by (simp add: entry_issues_def conflict_issue_def)
  qed
  from assms have "\<forall>i \<in> set (validate_pin h (entry_pin (snd e)) (entry_type (snd e)) (fst e)).
                     severity i \<noteq> ''critical''"
    by (simp add: entry_issues_def)
  from validate_pin_without_critical [OF this] nu show ?thesis
    by (simp add: entry_issues_def)
qed

lemma validate_loop_without_critical:
  assumes "\<forall>i \<in> set (issues (validate_loop h conns)). severity i \<noteq> ''critical''"
  shows "issues (validate_loop h conns) =
           concat (map (\<lambda>e. if entry_pin (snd e) \<in> set (reserved (spec h))
                            then [reserved_pin_warning (entry_pin (snd e))] else [])
                       (entries conns))"
    and "\<forall>k < length (entries conns). entry_pin (snd (entries conns ! k)) \<notin> pins_before conns k"
proof -
  let ?es = "entries conns"
  let ?f = "\<lambda>e. if entry_pin (snd e) \<in> set (reserved (spec h))
                  then [reserved_pin_warning (entry_pin (snd e))] else []"
  have each: "\<forall>k < length ?es. \<forall>i \<in> set (entry_issues h (pins_before conns k) (?es ! k)).
                severity i \<noteq> ''critical''"
    using assms unfolding validate_loop_issues by auto
  then have eq: "\<forall>k < length ?es. entry_issues h (pins_before conns k) (?es ! k) = ?f (?es ! k)"
    and nb: "\<forall>k < length ?es. entry_pin (snd (?es ! k)) \<notin> pins_before conns k"
    using entry_issues_without_critical by blast+
  from eq have "map (\<lambda>k. entry_issues h (pins_before conns k) (?es ! k)) [0..<length ?es]
              = map (\<lambda>k. ?f (?es ! k)) [0..<length ?es]"
    by simp
  also have "\<dots> = map ?f ?es"
    by (rule nth_equalityI) simp_all
  finally show "issues (validate_loop h conns) = concat (map ?f ?es)"
    by (simp add: validate_loop_issues)
  from nb show "\<forall>k < length ?es. entry_pin (snd (?es ! k)) \<notin> pins_before conns k" .
qed

lemma distinct_by_prefixes:
  "(\<forall>k < length xs. xs ! k \<notin> set (take k xs)) \<Longrightarrow> distinct xs"
proof (induction xs rule: rev_induct)
  case Nil
  show ?case by simp
next
  case (snoc x xs)
  have "\<forall>k < length xs. xs ! k \<notin> set (take k xs)"
  proof (intro allI impI)
    fix k assume k: "k < length xs"
    with snoc.prems [rule_format, of k] show "xs ! k \<notin> set (take k xs)"
      by (simp add: nth_append)
  qed
  then have "distinct xs" by (rule snoc.IH)
  moreover from snoc.prems [rule_format, of "length xs"] have "x \<notin> set xs" by simp
  ultimately show ?case by simp
qed

section \<open>Which pin a call for an LED returns\<close>

lemma first_unused_first:
  assumes "\<exists>p \<in> set available. map_of pu p = None"
  shows "\<forall>q \<in> set (takeWhile (\<lambda>q. q \<noteq> first_unused pu available) available).
           map_of pu q \<noteq> None"
proof -
  from assms have "find (\<lambda>pin. map_of pu pin = None) available \<noteq> None"
    by (simp add: find_None_iff) blast
  then obtain p where f: "find (\<lambda>pin. map_of pu pin = None) available = Some p"
    by blast
  then obtain i where i: "i < length available" "available ! i = p"
    "\<forall>j < i. map_of pu (available ! j) \<noteq> None"
    unfolding find_Some_iff by blast
  from f have fu: "first_unused pu available = p" by (simp add: first_unused_def)
  show ?thesis
  proof
    fix q assume "q \<in> set (takeWhile (\<lambda>q. q \<noteq> first_unused pu available) available)"
    then obtain j where j: "j < length (takeWhile (\<lambda>q. q \<noteq> p) available)"
      "takeWhile (\<lambda>q. q \<noteq> p) available ! j = q"
      unfolding fu by (auto simp: in_set_conv_nth)
    have "length (takeWhile (\<lambda>q. q \<noteq> p) available) \<le> i"
    proof (rule ccontr)
      assume "\<not> length (takeWhile (\<lambda>q. q \<noteq> p) available) \<le> i"
      then have "i < length (takeWhile (\<lambda>q. q \<noteq> p) available)" by simp
      from nth_length_takeWhile [of "\<lambda>q. q \<noteq> p" available] takeWhile_nth [OF this] 
        nth_mem [OF this] i(2)
      show False by (auto dest: set_takeWhileD)
    qed
    with j(1) have "j < i" by simp
    with i(3) have "map_of pu (available ! j) \<noteq> None" by blast
    with j takeWhile_nth [OF j(1)] show "map_of pu q \<noteq> None" by simp
  qed
qed

lemma first_unused_all_used:
  "\<forall>p \<in> set available. map_of pu p \<noteq> None \<Longrightarrow> first_unused pu available = hd available"
proof -
  assume "\<forall>p \<in> set available. map_of pu p \<noteq> None"
  then have "find (\<lambda>pin. map_of pu pin = None) available = None"
    by (simp add: find_None_iff)
  then show ?thesis by (simp add: first_unused_def)
qed

lemma led_result: "fst (auto_assign_pins pu b ''led'') = [(''LED'', find_best_gpio pu b)]"
  by (simp add: auto_assign_pins_def Let_def)

lemma led_recorded:
  "map_of (snd (auto_assign_pins pu b ''led'')) p =
     (if p = find_best_gpio pu b then Some ''led'' else map_of pu p)"
  by (simp add: auto_assign_pins_def Let_def update_conv')

lemma second_led_differs:
  assumes "\<exists>p \<in> set (case map_of gpio_defaults b of Some l \<Rightarrow> l | None \<Rightarrow> [2]).
           \<exists>q \<in> set (case map_of gpio_defaults b of Some l \<Rightarrow> l | None \<Rightarrow> [2]).
             p \<noteq> q \<and> map_of pu p = None \<and> map_of pu q = None"
  shows "fst (auto_assign_pins (snd (auto_assign_pins pu b ''led'')) b ''led'')
         \<noteq> fst (auto_assign_pins pu b ''led'')"
proof -
  define L where "L = (case map_of gpio_defaults b of Some l \<Rightarrow> l | None \<Rightarrow> [2])"
  define pu' where "pu' = snd (auto_assign_pins pu b ''led'')"
  define p1 where "p1 = find_best_gpio pu b"
  from assms obtain p q where pq: "p \<in> set L" "q \<in> set L" "p \<noteq> q"
    "map_of pu p = None" "map_of pu q = None"
    unfolding L_def by blast
  have r: "\<And>x. map_of pu' x = (if x = p1 then Some ''led'' else map_of pu x)"
    unfolding pu'_def p1_def by (rule led_recorded)
  from pq obtain x where x: "x \<in> set L" "x \<noteq> p1" "map_of pu x = None"
    by (cases "p = p1") auto
  with r have "\<exists>x \<in> set L. map_of pu' x = None" by auto
  from first_unused_skips [OF this] have "map_of pu' (first_unused pu' L) = None" by simp
  moreover have "map_of pu' p1 = Some ''led''" by (simp add: r)
  ultimately have "first_unused pu' L \<noteq> p1" by auto
  then have "find_best_gpio pu' b \<noteq> find_best_gpio pu b"
    by (simp add: find_best_gpio_def L_def p1_def)
  then show ?thesis
    unfolding led_result pu'_def [symmetric] by simp
qed

lemma bus_roles:
  "map fst (fst (auto_assign_pins pu b ''i2c'')) = [''SDA'', ''SCL'']"
  "map fst (fst (auto_assign_pins pu b ''spi'')) = [''MOSI'', ''MISO'', ''SCK'', ''CS'']"
  "map fst (fst (auto_assign_pins pu b ''uart'')) = [''TX'', ''RX'']"
  by (simp_all add: auto_assign_pins_def Let_def find_i2c_pins_def find_spi_pins_def
        find_uart_pins_def i2c_defaults_def spi_defaults_def uart_defaults_def)

section \<open>The repair pass drops what it does not fix\<close>

text \<open>
  C1 (a pair of bindings sharing a pin is never silent: one of them is in the returned
  issues as an unresolved critical issue). On board esp32 with LED on pin 2 (GPIO) and
  Servo on pin 2 (PWM), validation raises one critical conflict issue; the repair pass
  has no branch for the type \<^verbatim>\<open>conflict\<close>, so the issue is neither fixed nor kept: the
  returned map has both components on pin 2 and the returned issue list is empty.
\<close>

theorem duplicate_pin_dropped_silently:
  "validate_and_resolve (IntelligentHAL ''esp32'')
     [single_pin ''LED'' ''2'' ''GPIO'', single_pin ''Servo'' ''2'' ''PWM'']
   = ([(''LED'', 2), (''Servo'', 2)], [])"
  by code_simp

text \<open>
  C3 (a critical binding is reassigned with a warning recording the fix, or, when no
  free pin of the capability remains, left unchanged with its critical issue kept
  verbatim). On board arduino\_uno with all six PWM pins claimed by valid bindings and
  Fan on pin 2 as PWM, no PWM pin is free: Fan stays on pin 2, and its critical
  capability issue is gone from the returned list, which is empty. On the same board
  with Thermistor on pin 7 as ADC a free ADC pin exists: Thermistor is moved to pin 14
  and the returned list is empty too, with no warning recording the fix.
\<close>

theorem exhausted_capability_issue_dropped:
  "validate_and_resolve (IntelligentHAL ''arduino_uno'')
     [single_pin ''A'' ''3'' ''GPIO'', single_pin ''B'' ''5'' ''GPIO'',
      single_pin ''C'' ''6'' ''GPIO'', single_pin ''D'' ''9'' ''GPIO'',
      single_pin ''E'' ''10'' ''GPIO'', single_pin ''F'' ''11'' ''GPIO'',
      single_pin ''Fan'' ''2'' ''PWM'']
   = ([(''A'', 3), (''B'', 5), (''C'', 6), (''D'', 9), (''E'', 10), (''F'', 11), (''Fan'', 2)],
      [])
   \<and> validate_and_resolve (IntelligentHAL ''arduino_uno'')
         [single_pin ''Thermistor'' ''7'' ''ADC'']
       = ([(''Thermistor'', 14)], [])"
  by code_simp

text \<open>
  C4 (after resolve, a PWM binding with no unresolved critical issue has a PWM-capable
  pin). On board esp32 with Servo on pin 50 as PWM, pin 50 is not a pin of the board;
  the repair pass turns the critical issue into a warning that says auto-fixed and
  reassigns nothing: Servo is returned on pin 50, which is not PWM-capable, and no
  critical issue is returned.
\<close>

theorem invalid_pwm_pin_kept_without_critical:
  "validate_and_resolve (IntelligentHAL ''esp32'') [single_pin ''Servo'' ''50'' ''PWM'']
   = ([(''Servo'', 50)],
      [\<lparr> type = ''auto_fixed'', severity = ''warning'',
         message = ''Auto-fixed: Pin 50 not available on esp32'',
         suggested_fix = None \<rparr>])
   \<and> 50 \<notin> set (pwm_capable (spec (IntelligentHAL ''esp32'')))"
  by code_simp

section \<open>Which bindings the repair pass leaves alone\<close>

text \<open>
  C2 (a binding with no critical issue against it before resolve keeps its pin in the
  returned map: the repair pass never reassigns an already-valid binding). On board
  esp32 with \<open>servo_and_servo_motor\<close>, Servo on pin 4 as PWM is valid and raises no
  issue, and Servo Motor on pin 0 as PWM raises a critical capability issue. The repair
  pass reads the component to reassign out of the issue message with
  \<^verbatim>\<open>re.search(r'for (\w+)', ...)\<close>, which stops at the space and yields Servo: the
  valid component Servo is moved from pin 4 to pin 2, and Servo Motor stays on pin 0.
\<close>

theorem valid_servo_reassigned_for_servo_motor:
  "entry_issues (IntelligentHAL ''esp32'') (pins_before servo_and_servo_motor 0)
      (entries servo_and_servo_motor ! 0) = []
   \<and> resolved (validate_loop (IntelligentHAL ''esp32'') servo_and_servo_motor)
       = [(''Servo'', 4), (''Servo Motor'', 0)]
   \<and> search_for_word ''Pin 0 not PWM-capable for Servo Motor'' = Some ''Servo''
   \<and> validate_and_resolve (IntelligentHAL ''esp32'') servo_and_servo_motor
       = ([(''Servo'', 2), (''Servo Motor'', 0)],
          [\<lparr> type = ''reserved_pin'', severity = ''warning'',
             message = ''Pin 0 is reserved (boot/flash)'',
             suggested_fix = Some ''Use different pin if possible'' \<rparr>])"
  by code_simp

text \<open>
  Where the repair pass does keep a valid binding: when every component name is a
  non-empty run of word characters, so that the message scan yields the whole name, a
  binding with no critical issue against it, whose component name no other binding
  carries, has its own pin under its component name in the returned map, whatever the
  repair pass does to the other bindings. (The binding is the \<open>k\<close>-th pair the loops
  visit; the issues against it are those its pass of the inner loop appends.)
\<close>

theorem valid_binding_pin_kept:
  assumes names: "\<forall>e \<in> set (entries conns). fst e \<noteq> [] \<and> (\<forall>ch \<in> set (fst e). is_word ch)"
    and k: "k < length (entries conns)"
    and valid: "\<forall>i \<in> set (entry_issues h (pins_before conns k) (entries conns ! k)).
                  severity i \<noteq> ''critical''"
    and uniq: "\<forall>j < length (entries conns). j \<noteq> k \<longrightarrow>
                  fst (entries conns ! j) \<noteq> fst (entries conns ! k)"
  shows "map_of (fst (validate_and_resolve h conns)) (fst (entries conns ! k)) =
           Some (entry_pin (snd (entries conns ! k)))"
proof -
  let ?es = "entries conns"
  let ?c = "fst (?es ! k)"
  have "?c \<notin> set (fix_targets (issues (validate_loop h conns)))"
  proof
    assume "?c \<in> set (fix_targets (issues (validate_loop h conns)))"
    then obtain j where j: "j < length ?es"
      and t: "?c \<in> set (fix_targets (entry_issues h (pins_before conns j) (?es ! j)))"
      by (auto simp: validate_loop_issues fix_targets_concat)
    from j names have w: "fst (?es ! j) \<noteq> []" "\<forall>ch \<in> set (fst (?es ! j)). is_word ch"
      by auto
    from fix_targets_entry_issues [OF w t]
    have eq: "?c = fst (?es ! j)"
      and crit: "\<exists>i \<in> set (entry_issues h (pins_before conns j) (?es ! j)). severity i = ''critical''"
      by auto
    from uniq j have "j \<noteq> k \<longrightarrow> fst (?es ! j) \<noteq> ?c" by blast
    with eq have "j = k" by simp
    with crit valid show False by auto
  qed
  then show ?thesis
    by (simp add: validate_and_resolve_frame last_pin_unique [OF k uniq])
qed

text \<open>
  An instance on \<open>led_servo\<close> on board esp32: LED on pin 2 is valid and stays on pin
  2, while Servo, on pin 0 as PWM, is moved to the first free PWM pin, 4.
\<close>

theorem valid_binding_pin_kept_witness:
  "entries led_servo ! 0 = (''LED'', \<lparr> mcu_pin = Some (PinStr ''2''), pin_type = Some ''GPIO'' \<rparr>)
   \<and> entry_pin (snd (entries led_servo ! 0)) = 2
   \<and> map_of (fst (validate_and_resolve (IntelligentHAL ''esp32'') led_servo)) ''LED'' = Some 2
   \<and> map_of (fst (validate_and_resolve (IntelligentHAL ''esp32'') led_servo)) ''Servo'' = Some 4"
proof -
  have e: "entries led_servo =
      [(''LED'', \<lparr> mcu_pin = Some (PinStr ''2''), pin_type = Some ''GPIO'' \<rparr>),
       (''Servo'', \<lparr> mcu_pin = Some (PinStr ''0''), pin_type = Some ''PWM'' \<rparr>)]"
    by code_simp
  have names: "\<forall>e \<in> set (entries led_servo). fst e \<noteq> [] \<and> (\<forall>ch \<in> set (fst e). is_word ch)"
    unfolding e by (simp add: is_word_def)
  have k: "0 < length (entries led_servo)"
    unfolding e by simp
  have valid: "\<forall>i \<in> set (entry_issues (IntelligentHAL ''esp32'') (pins_before led_servo 0)
                   (entries led_servo ! 0)). severity i \<noteq> ''critical''"
    by code_simp
  have uniq: "\<forall>j < length (entries led_servo). j \<noteq> 0 \<longrightarrow>
                fst (entries led_servo ! j) \<noteq> fst (entries led_servo ! 0)"
    unfolding e by (simp add: nth_Cons')
  have p: "entry_pin (snd (entries led_servo ! 0)) = 2" by code_simp
  have s: "map_of (fst (validate_and_resolve (IntelligentHAL ''esp32'') led_servo)) ''Servo'' = Some 4"
    by code_simp
  from valid_binding_pin_kept [OF names k valid uniq] p s e
  show ?thesis by simp
qed

text \<open>
  The name has to be carried by no other binding because the returned map is keyed by
  component name: on \<open>motor_two_pins\<close> the first binding of Motor, pin 4 as GPIO,
  raises no issue, the second, pin 0 as PWM, is repaired, and Motor is returned on
  pin 2.
\<close>

theorem valid_entry_of_repaired_component:
  "\<not> (\<exists>i \<in> set (entry_issues (IntelligentHAL ''esp32'') (pins_before motor_two_pins 0)
                    (entries motor_two_pins ! 0)). severity i = ''critical'')
   \<and> fst (entries motor_two_pins ! 0) = ''Motor''
   \<and> entry_pin (snd (entries motor_two_pins ! 0)) = 4
   \<and> map_of (fst (validate_and_resolve (IntelligentHAL ''esp32'') motor_two_pins)) ''Motor''
       = Some 2"
  by code_simp

section \<open>What validation reports for pins that are claimed twice\<close>

text \<open>
  C7, as stated (all per-binding checks run before duplicate detection, exactly one
  critical duplicate issue per group of bindings sharing a pin, naming the components,
  and a pin flagged invalid stays out of duplicate detection), fails on three
  components A, B, C all on pin 50 of board esp32: validation appends two conflict
  issues for the one group, each naming only the pin, interleaved with the invalid-pin
  issues of the same pin.
\<close>

theorem three_bindings_two_conflicts:
  "length (filter (\<lambda>i. type i = ''conflict'')
     (issues (validate_loop (IntelligentHAL ''esp32'')
        [single_pin ''A'' ''50'' ''GPIO'', single_pin ''B'' ''50'' ''GPIO'',
         single_pin ''C'' ''50'' ''GPIO'']))) = 2
   \<and> map message (filter (\<lambda>i. type i = ''conflict'')
     (issues (validate_loop (IntelligentHAL ''esp32'')
        [single_pin ''A'' ''50'' ''GPIO'', single_pin ''B'' ''50'' ''GPIO'',
         single_pin ''C'' ''50'' ''GPIO''])))
     = [''Pin 50 used by multiple components'', ''Pin 50 used by multiple components'']
   \<and> map type (issues (validate_loop (IntelligentHAL ''esp32'')
        [single_pin ''A'' ''50'' ''GPIO'', single_pin ''B'' ''50'' ''GPIO'',
         single_pin ''C'' ''50'' ''GPIO'']))
     = [''invalid_pin'', ''invalid_pin'', ''conflict'', ''invalid_pin'', ''conflict'']"
  by code_simp

text \<open>
  C7, amended: validation appends, binding by binding in declaration order, first the
  issues of the per-binding checks and then one critical conflict issue if the pin was
  already claimed by an earlier binding; the conflict issue names the pin only. So for
  every pin \<open>q\<close>, valid for the board or not, the number of conflict issues for \<open>q\<close>
  is the number of bindings on \<open>q\<close> less one (none when no binding is on \<open>q\<close>).
\<close>

theorem conflict_issue_per_repeated_pin:
  "issues (validate_loop h conns) =
     concat (map (\<lambda>k. entry_issues h (pins_before conns k) (entries conns ! k))
               [0..<length (entries conns)])
   \<and> count_list (issues (validate_loop h conns)) (conflict_issue q) =
       count_list (map (entry_pin \<circ> snd) (entries conns)) q - 1"
proof -
  have "count_list (issues (validate_loop h conns)) (conflict_issue q) =
       count_list (map (entry_pin \<circ> snd) (entries conns)) q - 1"
    unfolding validate_loop_def validate_loop_entries fold_entries_count_conflict by simp
  then show ?thesis using validate_loop_issues by simp
qed

section \<open>Resolving a set that is already valid\<close>

text \<open>
  C8, as stated (when validation yields no critical issue, resolve returns the set with
  every binding's pin unchanged), fails on \<open>servo_two_pins\<close> on board esp32: Servo on
  pin 18 and Servo on pin 19, both PWM, raise no issue at all, and the returned map,
  keyed by component name, holds Servo on pin 19 only; the binding on pin 18 is not
  returned.
\<close>

theorem earlier_pin_of_valid_component_not_returned:
  "\<not> (\<exists>i \<in> set (issues (validate_loop (IntelligentHAL ''esp32'') servo_two_pins)).
        severity i = ''critical'')
   \<and> fst (entries servo_two_pins ! 0) = ''Servo''
   \<and> entry_pin (snd (entries servo_two_pins ! 0)) = 18
   \<and> validate_and_resolve (IntelligentHAL ''esp32'') servo_two_pins = ([(''Servo'', 19)], [])"
  by code_simp

text \<open>
  C8, amended: when validation yields no critical issue, every binding that is the
  last one listed for its component name has its own pin, unchanged, in the returned
  map (an earlier binding of the same name is not returned); the keys of the map are
  exactly the component names of the input, each once, so the map holds no pin but
  these; no two bindings share a pin; and the returned issues are exactly one
  reserved-pin warning for each binding on a reserved pin, in declaration order, so
  all of severity warning.
\<close>

theorem valid_set_resolved_without_repair:
  assumes "\<forall>i \<in> set (issues (validate_loop h conns)). severity i \<noteq> ''critical''"
  shows "(\<forall>k < length (entries conns).
            (\<forall>j < length (entries conns). k < j \<longrightarrow>
               fst (entries conns ! j) \<noteq> fst (entries conns ! k)) \<longrightarrow>
            map_of (fst (validate_and_resolve h conns)) (fst (entries conns ! k))
              = Some (entry_pin (snd (entries conns ! k))))
       \<and> fst ` set (fst (validate_and_resolve h conns)) = fst ` set (entries conns)
       \<and> distinct (map fst (fst (validate_and_resolve h conns)))
       \<and> distinct (map (entry_pin \<circ> snd) (entries conns))
       \<and> snd (validate_and_resolve h conns) =
           concat (map (\<lambda>e. if entry_pin (snd e) \<in> set (reserved (spec h))
                            then [reserved_pin_warning (entry_pin (snd e))] else [])
                       (entries conns))"
proof -
  from assms have r: "validate_and_resolve h conns =
           (resolved (validate_loop h conns), issues (validate_loop h conns))"
    by (auto simp: validate_and_resolve_def Let_def)
  have 1: "\<forall>k < length (entries conns).
            (\<forall>j < length (entries conns). k < j \<longrightarrow>
               fst (entries conns ! j) \<noteq> fst (entries conns ! k)) \<longrightarrow>
            map_of (fst (validate_and_resolve h conns)) (fst (entries conns ! k))
              = Some (entry_pin (snd (entries conns ! k)))"
    by (simp add: r validate_loop_resolved last_pin_last_binding)
  have 2: "fst ` set (fst (validate_and_resolve h conns)) = fst ` set (entries conns)"
    by (simp add: r validate_loop_keys)
  have 3: "distinct (map fst (fst (validate_and_resolve h conns)))"
    by (rule validate_and_resolve_distinct)
  have "\<forall>k < length (map (entry_pin \<circ> snd) (entries conns)).
          map (entry_pin \<circ> snd) (entries conns) ! k
            \<notin> set (take k (map (entry_pin \<circ> snd) (entries conns)))"
    using validate_loop_without_critical(2) [OF assms]
    by (simp add: pins_before_def take_map)
  then have 4: "distinct (map (entry_pin \<circ> snd) (entries conns))"
    by (rule distinct_by_prefixes)
  have 5: "snd (validate_and_resolve h conns) =
           concat (map (\<lambda>e. if entry_pin (snd e) \<in> set (reserved (spec h))
                            then [reserved_pin_warning (entry_pin (snd e))] else [])
                       (entries conns))"
    using validate_loop_without_critical(1) [OF assms] by (simp add: r)
  show ?thesis
    by (rule conjI [OF 1 conjI [OF 2 conjI [OF 3 conjI [OF 4 5]]]])
qed

text \<open>
  The amended C8 on \<open>led_flash\<close> on board esp32: LED on GPIO2 and Flash on the
  reserved pin 6 raise no critical issue; both are returned on their pins, with the one
  warning for pin 6.
\<close>

theorem valid_set_resolved_without_repair_witness:
  "\<not> (\<exists>i \<in> set (issues (validate_loop (IntelligentHAL ''esp32'') led_flash)).
        severity i = ''critical'')
   \<and> map_of (fst (validate_and_resolve (IntelligentHAL ''esp32'') led_flash)) ''LED'' = Some 2
   \<and> map_of (fst (validate_and_resolve (IntelligentHAL ''esp32'') led_flash)) ''Flash'' = Some 6
   \<and> snd (validate_and_resolve (IntelligentHAL ''esp32'') led_flash) = [reserved_pin_warning 6]"
proof -
  let ?h = "IntelligentHAL ''esp32''"
  have v: "issues (validate_loop ?h led_flash) = [reserved_pin_warning 6]"
    by code_simp
  have hyp: "\<forall>i \<in> set (issues (validate_loop ?h led_flash)). severity i \<noteq> ''critical''"
    unfolding v by (simp add: reserved_pin_warning_def)
  have e: "entries led_flash =
      [(''LED'', \<lparr> mcu_pin = Some (PinStr ''GPIO2''), pin_type = Some ''GPIO'' \<rparr>),
       (''Flash'', \<lparr> mcu_pin = Some (PinStr ''6''), pin_type = Some ''GPIO'' \<rparr>)]"
    by code_simp
  have p0: "entry_pin \<lparr> mcu_pin = Some (PinStr ''GPIO2''), pin_type = Some ''GPIO'' \<rparr> = 2"
    by code_simp
  have p1: "entry_pin \<lparr> mcu_pin = Some (PinStr ''6''), pin_type = Some ''GPIO'' \<rparr> = 6"
    by code_simp
  have r: "(6::int) \<in> set (reserved (spec ?h))" "(2::int) \<notin> set (reserved (spec ?h))"
    by code_simp+
  note t = valid_set_resolved_without_repair [OF hyp]
  from t have a: "\<forall>k < length (entries led_flash).
            (\<forall>j < length (entries led_flash). k < j \<longrightarrow>
               fst (entries led_flash ! j) \<noteq> fst (entries led_flash ! k)) \<longrightarrow>
            map_of (fst (validate_and_resolve ?h led_flash)) (fst (entries led_flash ! k))
              = Some (entry_pin (snd (entries led_flash ! k)))"
    by (rule conjunct1)
  from a [rule_format, of 0] have m0: "map_of (fst (validate_and_resolve ?h led_flash)) ''LED'' = Some 2"
    unfolding e by (simp add: p0 less_Suc_eq)
  from a [rule_format, of 1] have m1: "map_of (fst (validate_and_resolve ?h led_flash)) ''Flash'' = Some 6"
    unfolding e by (simp add: p1)
  from t have "snd (validate_and_resolve ?h led_flash) =
           concat (map (\<lambda>e. if entry_pin (snd e) \<in> set (reserved (spec ?h))
                            then [reserved_pin_warning (entry_pin (snd e))] else [])
                       (entries led_flash))"
    by blast
  then have s: "snd (validate_and_resolve ?h led_flash) = [reserved_pin_warning 6]"
    unfolding e by (simp add: p0 p1 r)
  from hyp m0 m1 s show ?thesis by simp
qed

section \<open>A component with several pin entries\<close>

text \<open>
  C10, as stated (the returned map holds, for a component with several pin entries,
  the pin of its last-listed entry), fails on \<open>sensor_two_pins\<close> on board
  arduino\_uno: the last-listed entry of Sensor is pin 7 as ADC, which is not
  ADC-capable, and the repair pass moves Sensor to pin 14.
\<close>

theorem repaired_component_not_on_last_listed_pin:
  "last_pin sensor_two_pins ''Sensor'' = Some 7
   \<and> validate_and_resolve (IntelligentHAL ''arduino_uno'') sensor_two_pins
       = ([(''Sensor'', 14)], [])"
  by code_simp

text \<open>
  C10, amended: the returned map has exactly one entry for every component name of the
  input (its keys are distinct and every component name is a key); for a component
  that the repair pass does not reassign (no critical capability issue whose message
  yields its name) the entry is the pin of its last-listed binding; and the pins of
  all bindings, the earlier ones of a component included, are in \<^verbatim>\<open>used_pins\<close>, the
  set conflict detection tests against.
\<close>

theorem resolved_map_one_entry_per_component:
  "distinct (map fst (fst (validate_and_resolve h conns)))
   \<and> (c \<in> fst ` set (entries conns) \<longrightarrow> c \<in> fst ` set (fst (validate_and_resolve h conns)))
   \<and> (c \<notin> set (fix_targets (issues (validate_loop h conns))) \<longrightarrow>
        map_of (fst (validate_and_resolve h conns)) c = last_pin conns c)
   \<and> used_pins (validate_loop h conns) = set (map (entry_pin \<circ> snd) (entries conns))"
  using validate_and_resolve_keys [of conns h]
  by (auto simp: validate_and_resolve_distinct validate_and_resolve_frame validate_loop_used)

text \<open>
  The amended C10 on \<open>motor_servo_button\<close> on board esp32: Motor lists pins 4 and 5
  and is returned on pin 5 only, while its earlier pin 4 is still in \<^verbatim>\<open>used_pins\<close>
  (Button on pin 4 raises a conflict).
\<close>

theorem resolved_map_one_entry_per_component_witness:
  "''Motor'' \<in> fst ` set (entries motor_servo_button)
   \<and> ''Motor'' \<notin> set (fix_targets (issues (validate_loop (IntelligentHAL ''esp32'') motor_servo_button)))
   \<and> distinct (map fst (fst (validate_and_resolve (IntelligentHAL ''esp32'') motor_servo_button)))
   \<and> ''Motor'' \<in> fst ` set (fst (validate_and_resolve (IntelligentHAL ''esp32'') motor_servo_button))
   \<and> map_of (fst (validate_and_resolve (IntelligentHAL ''esp32'') motor_servo_button)) ''Motor''
       = Some 5
   \<and> 4 \<in> used_pins (validate_loop (IntelligentHAL ''esp32'') motor_servo_button)"
proof -
  have a: "''Motor'' \<in> fst ` set (entries motor_servo_button)" by code_simp
  have b: "''Motor'' \<notin> set (fix_targets (issues (validate_loop (IntelligentHAL ''esp32'')
             motor_servo_button)))"
    by code_simp
  have l: "last_pin motor_servo_button ''Motor'' = Some 5" by code_simp
  have u: "(4::int) \<in> set (map (entry_pin \<circ> snd) (entries motor_servo_button))" by code_simp
  from resolved_map_one_entry_per_component
         [of "IntelligentHAL ''esp32''" motor_servo_button "''Motor''"] a b l u
  show ?thesis by simp
qed

section \<open>Pin text with no digits\<close>

text \<open>
  C6, as stated (pin text with no digits fails with UnparsablePin, which the caller
  reports as an InvalidPin issue at severity warning), fails on the pin text
  \<^verbatim>\<open>LED\<close> on board esp32: \<^verbatim>\<open>_parse_pin_number\<close> returns 0, the component is
  returned on pin 0, and the only issue is the reserved-pin warning of pin 0.
\<close>

theorem no_digits_parsed_as_pin_zero:
  "search_digits ''LED'' = None
   \<and> parse_pin_number ''LED'' = 0
   \<and> validate_and_resolve (IntelligentHAL ''esp32'') [single_pin ''Btn'' ''LED'' ''GPIO'']
       = ([(''Btn'', 0)],
          [\<lparr> type = ''reserved_pin'', severity = ''warning'',
             message = ''Pin 0 is reserved (boot/flash)'',
             suggested_fix = Some ''Use different pin if possible'' \<rparr>])"
  by code_simp

text \<open>
  C6, amended: \<^verbatim>\<open>_parse_pin_number\<close> returns the first contiguous run of digits of
  the pin text as the pin number (whatever surrounds the run), so \<^verbatim>\<open>GPIO{n}\<close>,
  \<^verbatim>\<open>D{n}\<close>, \<^verbatim>\<open>A{n}\<close>, the bare numeric string and the bare integer \<open>n\<close> all give
  \<open>n\<close>; for pin text with no digits it returns pin 0 and does not fail, and the
  caller validates the binding exactly as it validates one on pin \<^verbatim>\<open>"0"\<close>.
\<close>

theorem parse_pin_number_first_digit_run:
  "((\<forall>c \<in> set pre. \<not> is_digit c) \<and> ds \<noteq> [] \<and> (\<forall>c \<in> set ds. is_digit c)
      \<and> (post = [] \<or> \<not> is_digit (hd post))
     \<longrightarrow> parse_pin_number (pre @ ds @ post) = int_of_digits ds)
   \<and> parse_pin_number (''GPIO'' @ str_nat n) = int n
   \<and> parse_pin_number (''D'' @ str_nat n) = int n
   \<and> parse_pin_number (''A'' @ str_nat n) = int n
   \<and> parse_pin_number (str_nat n) = int n
   \<and> entry_pin \<lparr> mcu_pin = Some (PinInt (int n)), pin_type = t \<rparr> = int n
   \<and> ((\<forall>c \<in> set s. \<not> is_digit c) \<longrightarrow>
        parse_pin_number s = 0
        \<and> validate_entry h cname \<lparr> mcu_pin = Some (PinStr s), pin_type = t \<rparr> st
          = validate_entry h cname \<lparr> mcu_pin = Some (PinStr ''0''), pin_type = t \<rparr> st)"
proof -
  have g: "parse_pin_number (''GPIO'' @ str_nat n) = int n"
    by (rule parse_pin_number_prefixed) (simp add: is_digit_def)
  have d: "parse_pin_number (''D'' @ str_nat n) = int n"
    by (rule parse_pin_number_prefixed) (simp add: is_digit_def)
  have a: "parse_pin_number (''A'' @ str_nat n) = int n"
    by (rule parse_pin_number_prefixed) (simp add: is_digit_def)
  have b: "parse_pin_number (str_nat n) = int n"
    using parse_pin_number_prefixed [of "[]" n] by simp
  have i: "entry_pin \<lparr> mcu_pin = Some (PinInt (int n)), pin_type = t \<rparr> = int n"
    using b by (simp add: entry_pin_def mcu_pin_str_def str_int_def)
  have z: "parse_pin_number ''0'' = 0" by code_simp
  have e: "(\<forall>c \<in> set s. \<not> is_digit c) \<longrightarrow>
        parse_pin_number s = 0
        \<and> validate_entry h cname \<lparr> mcu_pin = Some (PinStr s), pin_type = t \<rparr> st
          = validate_entry h cname \<lparr> mcu_pin = Some (PinStr ''0''), pin_type = t \<rparr> st"
    by (simp add: validate_entry_def mcu_pin_str_def parse_pin_number_no_digit z)
  show ?thesis
    using g d a b i e parse_pin_number_embedded [of pre ds post] by blast
qed

text \<open>
  The amended C6 on \<^verbatim>\<open>D13 (PWM)\<close>, \<^verbatim>\<open>GPIO2\<close> and \<^verbatim>\<open>LED\<close>.
\<close>

theorem parse_pin_number_first_digit_run_witness:
  "parse_pin_number ''D13 (PWM)'' = 13
   \<and> parse_pin_number ''GPIO2'' = 2
   \<and> parse_pin_number ''LED'' = 0
   \<and> validate_entry (IntelligentHAL ''esp32'') ''Btn''
        \<lparr> mcu_pin = Some (PinStr ''LED''), pin_type = Some ''GPIO'' \<rparr>
        \<lparr> issues = [], resolved = [], used_pins = {} \<rparr>
      = validate_entry (IntelligentHAL ''esp32'') ''Btn''
        \<lparr> mcu_pin = Some (PinStr ''0''), pin_type = Some ''GPIO'' \<rparr>
        \<lparr> issues = [], resolved = [], used_pins = {} \<rparr>"
proof -
  have h1: "(\<forall>c \<in> set ''D''. \<not> is_digit c) \<and> ''13'' \<noteq> [] \<and> (\<forall>c \<in> set ''13''. is_digit c)
      \<and> ('' (PWM)'' = [] \<or> \<not> is_digit (hd '' (PWM)''))"
    by (simp add: is_digit_def)
  have h2: "\<forall>c \<in> set ''LED''. \<not> is_digit c"
    by (simp add: is_digit_def)
  have v: "int_of_digits ''13'' = 13" by code_simp
  have s: "str_nat 2 = ''2''" by code_simp
  from parse_pin_number_first_digit_run
         [of "''D''" "''13''" "'' (PWM)''" 2 "Some ''GPIO''" "''LED''" "IntelligentHAL ''esp32''"
             "''Btn''" "\<lparr> issues = [], resolved = [], used_pins = {} \<rparr>"]
       h1 h2 v s
  show ?thesis by simp
qed

section \<open>State kept between calls\<close>

text \<open>
  C9, as stated (no operation keeps mutable state between calls: two sequential calls
  on identical input give identical results), fails for pin assignment: starting from
  an empty \<^verbatim>\<open>pin_usage\<close>, \<^verbatim>\<open>auto_assign_pins('esp32', 'led', {})\<close> returns pin 2 and
  records it, and the same call again returns pin 4.
\<close>

theorem second_led_gets_another_pin:
  "fst (auto_assign_pins [] ''esp32'' ''led'') = [(''LED'', 2)]
   \<and> fst (auto_assign_pins (snd (auto_assign_pins [] ''esp32'' ''led'')) ''esp32'' ''led'')
       = [(''LED'', 4)]"
  by code_simp

text \<open>
  C9, amended. Pin resolution keeps nothing between calls: the validation stage leaves
  the table \<^verbatim>\<open>pin_usage\<close> as it finds it and gives the same result whatever the table
  holds, so sequential calls on identical input give identical results, also with
  pin-assignment calls in between. Pin assignment keeps the table between calls: after
  a call the table holds every returned pin under the peripheral type and every other
  record unchanged; a call for an LED returns one pin, the first pin of the board's
  default list that is not recorded, or the first pin of the list when all are
  recorded; so a second LED call on identical input returns a different pin whenever
  two default pins were unrecorded before the first. The calls for i2c, spi and uart
  return their bus roles with pins that do not depend on the table, and a call after
  \<^verbatim>\<open>reset\<close> gives what it gives on an empty table.
\<close>

theorem resolution_stateless_assignment_stateful:
  "snd (hal_validation_stage pu b conns) = pu
   \<and> fst (hal_validation_stage pu b conns) = fst (hal_validation_stage pu' b conns)
   \<and> map_of (snd (auto_assign_pins pu b peripheral_type)) pin =
       (if pin \<in> snd ` set (fst (auto_assign_pins pu b peripheral_type))
        then Some peripheral_type else map_of pu pin)
   \<and> ((\<exists>p \<in> set (case map_of gpio_defaults b of Some l \<Rightarrow> l | None \<Rightarrow> [2]). map_of pu p = None)
        \<longrightarrow> (\<exists>p. fst (auto_assign_pins pu b ''led'') = [(''LED'', p)]
               \<and> p \<in> set (case map_of gpio_defaults b of Some l \<Rightarrow> l | None \<Rightarrow> [2])
               \<and> map_of pu p = None
               \<and> (\<forall>q \<in> set (takeWhile (\<lambda>q. q \<noteq> p)
                               (case map_of gpio_defaults b of Some l \<Rightarrow> l | None \<Rightarrow> [2])).
                     map_of pu q \<noteq> None)))
   \<and> ((\<forall>p \<in> set (case map_of gpio_defaults b of Some l \<Rightarrow> l | None \<Rightarrow> [2]). map_of pu p \<noteq> None)
        \<longrightarrow> fst (auto_assign_pins pu b ''led'')
              = [(''LED'', hd (case map_of gpio_defaults b of Some l \<Rightarrow> l | None \<Rightarrow> [2]))])
   \<and> ((\<exists>p \<in> set (case map_of gpio_defaults b of Some l \<Rightarrow> l | None \<Rightarrow> [2]).
         \<exists>q \<in> set (case map_of gpio_defaults b of Some l \<Rightarrow> l | None \<Rightarrow> [2]).
           p \<noteq> q \<and> map_of pu p = None \<and> map_of pu q = None)
        \<longrightarrow> fst (auto_assign_pins (snd (auto_assign_pins pu b ''led'')) b ''led'')
              \<noteq> fst (auto_assign_pins pu b ''led''))
   \<and> map fst (fst (auto_assign_pins pu b ''i2c'')) = [''SDA'', ''SCL'']
   \<and> map fst (fst (auto_assign_pins pu b ''spi'')) = [''MOSI'', ''MISO'', ''SCK'', ''CS'']
   \<and> map fst (fst (auto_assign_pins pu b ''uart'')) = [''TX'', ''RX'']
   \<and> (peripheral_type = ''i2c'' \<or> peripheral_type = ''spi'' \<or> peripheral_type = ''uart''
        \<longrightarrow> fst (auto_assign_pins pu b peripheral_type)
              = fst (auto_assign_pins pu' b peripheral_type))
   \<and> auto_assign_pins (reset pu) b peripheral_type = auto_assign_pins [] b peripheral_type"
proof -
  define L where "L = (case map_of gpio_defaults b of Some l \<Rightarrow> l | None \<Rightarrow> [2])"
  have 1: "snd (hal_validation_stage pu b conns) = pu"
    by (simp add: hal_validation_stage_def)
  have 2: "fst (hal_validation_stage pu b conns) = fst (hal_validation_stage pu' b conns)"
    by (simp add: hal_validation_stage_def)
  obtain assigned where a: "auto_assign_pins pu b peripheral_type =
     (assigned, fold (\<lambda>(role, pin) u. AList.update pin peripheral_type u) assigned pu)"
    using auto_assign_pins_shape by blast
  have 3: "map_of (snd (auto_assign_pins pu b peripheral_type)) pin =
       (if pin \<in> snd ` set (fst (auto_assign_pins pu b peripheral_type))
        then Some peripheral_type else map_of pu pin)"
    unfolding a fst_conv snd_conv by (rule fold_record_usage)
  have 4: "(\<exists>p \<in> set L. map_of pu p = None)
        \<longrightarrow> (\<exists>p. fst (auto_assign_pins pu b ''led'') = [(''LED'', p)]
               \<and> p \<in> set L \<and> map_of pu p = None
               \<and> (\<forall>q \<in> set (takeWhile (\<lambda>q. q \<noteq> p) L). map_of pu q \<noteq> None))"
  proof
    assume e: "\<exists>p \<in> set L. map_of pu p = None"
    have "fst (auto_assign_pins pu b ''led'') = [(''LED'', first_unused pu L)]"
      by (simp add: led_result find_best_gpio_def L_def)
    with first_unused_skips [OF e] first_unused_first [OF e]
    show "\<exists>p. fst (auto_assign_pins pu b ''led'') = [(''LED'', p)]
               \<and> p \<in> set L \<and> map_of pu p = None
               \<and> (\<forall>q \<in> set (takeWhile (\<lambda>q. q \<noteq> p) L). map_of pu q \<noteq> None)"
      by blast
  qed
  have 5: "(\<forall>p \<in> set L. map_of pu p \<noteq> None)
        \<longrightarrow> fst (auto_assign_pins pu b ''led'') = [(''LED'', hd L)]"
    by (simp add: led_result find_best_gpio_def L_def [symmetric] first_unused_all_used)
  have 6: "(\<exists>p \<in> set L. \<exists>q \<in> set L. p \<noteq> q \<and> map_of pu p = None \<and> map_of pu q = None)
        \<longrightarrow> fst (auto_assign_pins (snd (auto_assign_pins pu b ''led'')) b ''led'')
              \<noteq> fst (auto_assign_pins pu b ''led'')"
    unfolding L_def by (rule impI) (rule second_led_differs)
  have 7: "peripheral_type = ''i2c'' \<or> peripheral_type = ''spi'' \<or> peripheral_type = ''uart''
        \<longrightarrow> fst (auto_assign_pins pu b peripheral_type)
              = fst (auto_assign_pins pu' b peripheral_type)"
    by (auto simp: auto_assign_pins_def Let_def)
  have 8: "auto_assign_pins (reset pu) b peripheral_type = auto_assign_pins [] b peripheral_type"
    by (simp add: reset_def)
  show ?thesis
    unfolding L_def [symmetric]
    by (rule conjI [OF 1 conjI [OF 2 conjI [OF 3 conjI [OF 4 conjI [OF 5 conjI [OF 6
          conjI [OF bus_roles(1) conjI [OF bus_roles(2) conjI [OF bus_roles(3)
          conjI [OF 7 8]]]]]]]]]])
qed

text \<open>
  The amended C9 on board esp32 with pin 2 recorded for an LED: resolving \<open>led_servo\<close>
  gives what it gives on an empty table; an LED call returns pin 4 and the next one
  another pin; the I2C pins are those of an empty table, and pin 21 is recorded for
  i2c afterwards.
\<close>

theorem resolution_stateless_assignment_stateful_witness:
  "fst (hal_validation_stage [(2, ''led'')] ''esp32'' led_servo)
     = fst (hal_validation_stage [] ''esp32'' led_servo)
   \<and> fst (hal_validation_stage [] ''esp32'' led_servo) = ([(''LED'', 2), (''Servo'', 4)],
         [reserved_pin_warning 0])
   \<and> fst (auto_assign_pins [(2, ''led'')] ''esp32'' ''led'') = [(''LED'', 4)]
   \<and> fst (auto_assign_pins (snd (auto_assign_pins [(2, ''led'')] ''esp32'' ''led'')) ''esp32'' ''led'')
       \<noteq> fst (auto_assign_pins [(2, ''led'')] ''esp32'' ''led'')
   \<and> fst (auto_assign_pins [(2, ''led'')] ''esp32'' ''i2c'') = fst (auto_assign_pins [] ''esp32'' ''i2c'')
   \<and> map_of (snd (auto_assign_pins [(2, ''led'')] ''esp32'' ''i2c'')) 21 = Some ''i2c''"
proof -
  note t = resolution_stateless_assignment_stateful
             [of "[(2, ''led'')]" "''esp32''" led_servo "[]" "''i2c''" 21]
  have L: "(case map_of gpio_defaults ''esp32'' of Some l \<Rightarrow> l | None \<Rightarrow> [2])
           = [2, 4, 5, 18, 19, 21, 22, 23]"
    by (simp add: gpio_defaults_def)
  have two: "\<exists>p \<in> set (case map_of gpio_defaults ''esp32'' of Some l \<Rightarrow> l | None \<Rightarrow> [2]).
         \<exists>q \<in> set (case map_of gpio_defaults ''esp32'' of Some l \<Rightarrow> l | None \<Rightarrow> [2]).
           p \<noteq> q \<and> map_of [(2::int, ''led'')] p = None \<and> map_of [(2::int, ''led'')] q = None"
    unfolding L by (intro bexI [of _ 4] bexI [of _ 5]) simp_all
  from t have 1: "fst (hal_validation_stage [(2, ''led'')] ''esp32'' led_servo)
     = fst (hal_validation_stage [] ''esp32'' led_servo)"
    by blast
  have 2: "fst (hal_validation_stage [] ''esp32'' led_servo) = ([(''LED'', 2), (''Servo'', 4)],
         [reserved_pin_warning 0])"
    by code_simp
  have 3: "fst (auto_assign_pins [(2, ''led'')] ''esp32'' ''led'') = [(''LED'', 4)]"
    by code_simp
  from t two have 4: "fst (auto_assign_pins (snd (auto_assign_pins [(2, ''led'')] ''esp32'' ''led'')) ''esp32'' ''led'')
       \<noteq> fst (auto_assign_pins [(2, ''led'')] ''esp32'' ''led'')"
    by blast
  from t have 5: "fst (auto_assign_pins [(2, ''led'')] ''esp32'' ''i2c'') = fst (auto_assign_pins [] ''esp32'' ''i2c'')"
    by blast
  have i: "(21::int) \<in> snd ` set (fst (auto_assign_pins [(2, ''led'')] ''esp32'' ''i2c''))"
    by code_simp
  from t have "map_of (snd (auto_assign_pins [(2, ''led'')] ''esp32'' ''i2c'')) 21 =
       (if 21 \<in> snd ` set (fst (auto_assign_pins [(2, ''led'')] ''esp32'' ''i2c''))
        then Some ''i2c'' else map_of [(2::int, ''led'')] (21::int))"
    by blast
  with i have 6: "map_of (snd (auto_assign_pins [(2, ''led'')] ''esp32'' ''i2c'')) 21 = Some ''i2c''"
    by simp
  show ?thesis
    by (rule conjI [OF 1 conjI [OF 2 conjI [OF 3 conjI [OF 4 conjI [OF 5 6]]]]])
qed

section \<open>A board that is not registered\<close>

text \<open>
  C5, as stated (an unregistered board gets a generic profile with pins 0 to 31 and no
  PWM or ADC pins, so every PWM or ADC binding on it ends as an unresolved critical
  capability mismatch), fails on the board name \<^verbatim>\<open>unknown_board_xyz\<close>: the profile
  in use has the pins and the PWM list of esp32, Servo on GPIO2 as PWM raises no issue,
  and Servo on pin 0 as PWM is moved to pin 2 with no critical issue returned.
\<close>

theorem unknown_board_has_esp32_pins:
  "map_of BOARD_SPECS ''unknown_board_xyz'' = None
   \<and> available_gpio (spec (IntelligentHAL ''unknown_board_xyz'')) \<noteq> map int [0..<32]
   \<and> pwm_capable (spec (IntelligentHAL ''unknown_board_xyz''))
       = [2, 4, 5, 12, 13, 14, 15, 16, 17, 18, 19, 21, 22, 23, 25, 26, 27, 32, 33]
   \<and> validate_and_resolve (IntelligentHAL ''unknown_board_xyz'')
         [single_pin ''Servo'' ''GPIO2'' ''PWM'']
       = ([(''Servo'', 2)], [])
   \<and> validate_and_resolve (IntelligentHAL ''unknown_board_xyz'')
         [single_pin ''Servo'' ''0'' ''PWM'']
       = ([(''Servo'', 2)],
          [\<lparr> type = ''reserved_pin'', severity = ''warning'',
             message = ''Pin 0 is reserved (boot/flash)'',
             suggested_fix = Some ''Use different pin if possible'' \<rparr>])"
  by code_simp

text \<open>
  C5, amended: for every board identifier with no entry in \<^verbatim>\<open>BOARD_SPECS\<close> the
  resolution engine falls back to the esp32 profile, so the resolved map is that of
  board esp32 for the same input; a PWM (ADC) binding on such a board gets a capability
  issue exactly when its pin is an esp32 pin that is not PWM-capable (ADC-capable) on
  esp32, and every capability issue validation raises is critical and carries a
  suggested fix.
\<close>

theorem unknown_board_uses_esp32_profile:
  assumes "map_of BOARD_SPECS b = None"
  shows "spec (IntelligentHAL b) = esp32_spec
       \<and> fst (validate_and_resolve (IntelligentHAL b) conns)
           = fst (validate_and_resolve (IntelligentHAL ''esp32'') conns)
       \<and> ((\<exists>i \<in> set (validate_pin (IntelligentHAL b) pin ''PWM'' cname).
               type i = ''wrong_capability'')
            = (pin \<in> set (available_gpio esp32_spec) \<and> pin \<notin> set (pwm_capable esp32_spec)))
       \<and> ((\<exists>i \<in> set (validate_pin (IntelligentHAL b) pin ''ADC'' cname).
               type i = ''wrong_capability'')
            = (pin \<in> set (available_gpio esp32_spec) \<and> pin \<notin> set (adc_capable esp32_spec)))
       \<and> (\<forall>i \<in> set (validate_pin (IntelligentHAL b) pin t cname).
            type i = ''wrong_capability'' \<longrightarrow>
              severity i = ''critical'' \<and> suggested_fix i \<noteq> None)"
proof -
  from assms have s: "spec (IntelligentHAL b) = esp32_spec" by (rule unknown_spec)
  then have e: "spec (IntelligentHAL b) = spec (IntelligentHAL ''esp32'')"
    by (simp add: esp32_spec_known)
  have 2: "fst (validate_and_resolve (IntelligentHAL b) conns)
           = fst (validate_and_resolve (IntelligentHAL ''esp32'') conns)"
    by (rule validate_and_resolve_same_spec [OF e])
  have 3: "(\<exists>i \<in> set (validate_pin (IntelligentHAL b) pin ''PWM'' cname).
               type i = ''wrong_capability'')
            = (pin \<in> set (available_gpio esp32_spec) \<and> pin \<notin> set (pwm_capable esp32_spec))"
    by (auto simp: validate_pin_def s)
  have 4: "(\<exists>i \<in> set (validate_pin (IntelligentHAL b) pin ''ADC'' cname).
               type i = ''wrong_capability'')
            = (pin \<in> set (available_gpio esp32_spec) \<and> pin \<notin> set (adc_capable esp32_spec))"
    by (auto simp: validate_pin_def s)
  have 5: "\<forall>i \<in> set (validate_pin (IntelligentHAL b) pin t cname).
            type i = ''wrong_capability'' \<longrightarrow>
              severity i = ''critical'' \<and> suggested_fix i \<noteq> None"
    by (auto simp: validate_pin_def)
  show ?thesis
    by (rule conjI [OF s conjI [OF 2 conjI [OF 3 conjI [OF 4 5]]]])
qed

text \<open>
  The amended C5 on \<^verbatim>\<open>unknown_board_xyz\<close> with the input \<open>led_servo\<close>.
\<close>

theorem unknown_board_uses_esp32_profile_witness:
  "map_of BOARD_SPECS ''unknown_board_xyz'' = None
   \<and> spec (IntelligentHAL ''unknown_board_xyz'') = esp32_spec
   \<and> fst (validate_and_resolve (IntelligentHAL ''unknown_board_xyz'') led_servo)
       = [(''LED'', 2), (''Servo'', 4)]"
proof -
  have u: "map_of BOARD_SPECS ''unknown_board_xyz'' = None" by code_simp
  have e: "fst (validate_and_resolve (IntelligentHAL ''esp32'') led_servo)
           = [(''LED'', 2), (''Servo'', 4)]"
    by code_simp
  from unknown_board_uses_esp32_profile [OF u, of led_servo] u e
  show ?thesis by simp
qed
end
